theory Spec2Isabelle
  imports
    Main
    "HOL-Library.Sublist"
    "HOL-Library.Char_ord"
    "HOL-Library.List_Lexorder"
    "HOL-Library.AList"
    "HOL-Library.Multiset"
begin

section \<open>Go strings and the library calls of \<^verbatim>\<open>internal/helpers/helpers.go\<close>\<close>

text \<open>
  A Go string is a sequence of bytes, and so is \<^typ>\<open>string\<close>. The functions of package
  \<^verbatim>\<open>strings\<close> that the helpers call are written out here after the Go standard library:
  they search and cut at the level of bytes. A run-time panic of the Go program is a value
  of type \<open>panic\<close>; a function that can panic returns \<open>panic + 'a\<close>.
\<close>

datatype panic = IndexOutOfRange

text \<open>\<^verbatim>\<open>xs[i]\<close> on a slice: a read past the end panics.\<close>

definition at :: "'a list \<Rightarrow> nat \<Rightarrow> panic + 'a" where
  "at xs i = (if i < length xs then Inr (xs ! i) else Inl IndexOutOfRange)"

definition HasPrefix :: "string \<Rightarrow> string \<Rightarrow> bool" where
  "HasPrefix s p = prefix p s"

text \<open>\<^verbatim>\<open>strings.Index\<close>: the position of the first occurrence of \<open>substr\<close>, \<open>None\<close> for -1.\<close>

fun Index :: "string \<Rightarrow> string \<Rightarrow> nat option" where
  "Index [] substr = (if substr = [] then Some 0 else None)"
| "Index (c # cs) substr =
     (if prefix substr (c # cs) then Some 0 else map_option Suc (Index cs substr))"

definition Contains :: "string \<Rightarrow> string \<Rightarrow> bool" where
  "Contains s substr = (Index s substr \<noteq> None)"

lemma Index_Some_bound: "Index s substr = Some m \<Longrightarrow> m + length substr \<le> length s"
proof (induction s arbitrary: m)
  case Nil
  then show ?case by (simp split: if_splits)
next
  case (Cons c cs)
  show ?case
  proof (cases "prefix substr (c # cs)")
    case True
    with Cons.prems show ?thesis by (auto dest: prefix_length_le)
  next
    case False
    with Cons.prems obtain k where "Index cs substr = Some k" "m = Suc k" by auto
    with Cons.IH show ?thesis by fastforce
  qed
qed

lemma Index_Some_shrinks:
  "Index s (c # cs) = Some m \<Longrightarrow> length (drop (m + length (c # cs)) s) < length s"
  by (drule Index_Some_bound) auto

text \<open>
  \<^verbatim>\<open>strings.Count\<close> for a non-empty \<open>substr\<close>: the number of non-overlapping occurrences,
  found from the left. Every call in the helpers passes a non-empty literal; the Go
  behaviour for the empty string (a count of runes) is not part of the model.
\<close>

function (sequential) Count :: "string \<Rightarrow> string \<Rightarrow> nat" where
  "Count s (c # cs) =
     (case Index s (c # cs) of
        None \<Rightarrow> 0
      | Some m \<Rightarrow> Suc (Count (drop (m + length (c # cs)) s) (c # cs)))"
  by pat_completeness auto
termination
  by (relation "measure (\<lambda>(s, substr). length s)") (auto dest: Index_Some_shrinks)

text \<open>
  The loop of \<^verbatim>\<open>strings.genSplit\<close>: \<open>n\<close> is the number of cuts still allowed
  (Go's \<open>n - 1 - i\<close>); the remainder of the string is the last piece.
\<close>

fun genSplit :: "string \<Rightarrow> string \<Rightarrow> nat \<Rightarrow> string list" where
  "genSplit s sep 0 = [s]"
| "genSplit s sep (Suc n) =
     (case Index s sep of
        None \<Rightarrow> [s]
      | Some m \<Rightarrow> take m s # genSplit (drop (m + length sep) s) sep n)"

text \<open>\<^verbatim>\<open>strings.Split(s, sep)\<close> cuts at every occurrence: \<open>Count s sep + 1\<close> pieces.\<close>

definition Split :: "string \<Rightarrow> string \<Rightarrow> string list" where
  "Split s sep = genSplit s sep (Count s sep)"

text \<open>\<^verbatim>\<open>strings.SplitN(s, sep, n)\<close> for \<open>n > 0\<close>: at most \<open>n\<close> pieces.\<close>

definition SplitN :: "string \<Rightarrow> string \<Rightarrow> nat \<Rightarrow> string list" where
  "SplitN s sep n = genSplit s sep (min n (length s + 1) - 1)"

text \<open>\<^verbatim>\<open>strings.ReplaceAll\<close> for a non-empty \<open>old\<close>: every non-overlapping occurrence, from the left.\<close>

function (sequential) ReplaceAll :: "string \<Rightarrow> string \<Rightarrow> string \<Rightarrow> string" where
  "ReplaceAll s (c # cs) new =
     (case Index s (c # cs) of
        None \<Rightarrow> s
      | Some m \<Rightarrow> take m s @ new @ ReplaceAll (drop (m + length (c # cs)) s) (c # cs) new)"
  by pat_completeness auto
termination
  by (relation "measure (\<lambda>(s, old, new). length s)") (auto dest: Index_Some_shrinks)

text \<open>
  \<^verbatim>\<open>strings.TrimSpace\<close> removes the leading and trailing white space of Unicode
  (\<^verbatim>\<open>unicode.IsSpace\<close>). On bytes, a leading or trailing rune is white space exactly
  when the string begins or ends with the UTF-8 encoding of one of: U+0009 to U+000D,
  U+0020, U+0085, U+00A0, U+1680, U+2000 to U+200A, U+2028, U+2029, U+202F, U+205F, U+3000.
\<close>

definition spaceSeqs :: "string list" where
  "spaceSeqs =
     [[CHR 0x09], [CHR 0x0A], [CHR 0x0B], [CHR 0x0C], [CHR 0x0D], [CHR 0x20],
      [CHR 0xC2, CHR 0x85], [CHR 0xC2, CHR 0xA0],
      [CHR 0xE1, CHR 0x9A, CHR 0x80],
      [CHR 0xE2, CHR 0x80, CHR 0x80], [CHR 0xE2, CHR 0x80, CHR 0x81],
      [CHR 0xE2, CHR 0x80, CHR 0x82], [CHR 0xE2, CHR 0x80, CHR 0x83],
      [CHR 0xE2, CHR 0x80, CHR 0x84], [CHR 0xE2, CHR 0x80, CHR 0x85],
      [CHR 0xE2, CHR 0x80, CHR 0x86], [CHR 0xE2, CHR 0x80, CHR 0x87],
      [CHR 0xE2, CHR 0x80, CHR 0x88], [CHR 0xE2, CHR 0x80, CHR 0x89],
      [CHR 0xE2, CHR 0x80, CHR 0x8A],
      [CHR 0xE2, CHR 0x80, CHR 0xA8], [CHR 0xE2, CHR 0x80, CHR 0xA9],
      [CHR 0xE2, CHR 0x80, CHR 0xAF], [CHR 0xE2, CHR 0x81, CHR 0x9F],
      [CHR 0xE3, CHR 0x80, CHR 0x80]]"

text \<open>The length of the white-space rune that \<open>s\<close> begins with, if it begins with one.\<close>

definition leadingSpace :: "string \<Rightarrow> nat option" where
  "leadingSpace s = map_option length (find (\<lambda>q. prefix q s) spaceSeqs)"

fun TrimLeftSpace :: "nat \<Rightarrow> string \<Rightarrow> string" where
  "TrimLeftSpace k [] = []"
| "TrimLeftSpace (Suc k) (c # cs) = TrimLeftSpace k cs"
| "TrimLeftSpace 0 (c # cs) =
     (case leadingSpace (c # cs) of
        None \<Rightarrow> c # cs
      | Some n \<Rightarrow> TrimLeftSpace (n - 1) cs)"

text \<open>
  Trimming at the end is trimming the reversed string of the reversed encodings.
\<close>

definition trailingSpace :: "string \<Rightarrow> nat option" where
  "trailingSpace r = map_option length (find (\<lambda>q. prefix (rev q) r) spaceSeqs)"

fun TrimRightSpaceRev :: "nat \<Rightarrow> string \<Rightarrow> string" where
  "TrimRightSpaceRev k [] = []"
| "TrimRightSpaceRev (Suc k) (c # cs) = TrimRightSpaceRev k cs"
| "TrimRightSpaceRev 0 (c # cs) =
     (case trailingSpace (c # cs) of
        None \<Rightarrow> c # cs
      | Some n \<Rightarrow> TrimRightSpaceRev (n - 1) cs)"

definition TrimSpace :: "string \<Rightarrow> string" where
  "TrimSpace s = rev (TrimRightSpaceRev 0 (rev (TrimLeftSpace 0 s)))"

text \<open>
  \<^verbatim>\<open>strings.Trim(s, cutset)\<close> for a cutset of ASCII characters: all leading and all
  trailing bytes that are in the cutset go.
\<close>

definition Trim :: "string \<Rightarrow> string \<Rightarrow> string" where
  "Trim s cutset =
     rev (dropWhile (\<lambda>c. c \<in> set cutset) (rev (dropWhile (\<lambda>c. c \<in> set cutset) s)))"

text \<open>\<^verbatim>\<open>strings.Join\<close>.\<close>

fun Join :: "string list \<Rightarrow> string \<Rightarrow> string" where
  "Join [] sep = []"
| "Join [x] sep = x"
| "Join (x # y # ys) sep = x @ sep @ Join (y # ys) sep"


section \<open>Frontmatter values\<close>

text \<open>
  A frontmatter document is a Go \<^verbatim>\<open>map[string]interface{}\<close>. The dynamic types that the
  helpers tell apart in their type switches are the constructors of \<open>val\<close>. The helpers
  never compute with a float, a time or a value of any other type: they only print them.
  So a \<^verbatim>\<open>float64\<close> is carried as its \<^verbatim>\<open>%v\<close> text, a \<^verbatim>\<open>time.Time\<close> as its \<^verbatim>\<open>%v\<close>
  text and its RFC 3339 text, and a value of any other dynamic type (a nested map, a TOML
  local date, ...) as its \<^verbatim>\<open>%v\<close> text.
\<close>

datatype val =
    VNil
  | VString string
  | VBool bool
  | VInt int
  | VInt64 int
  | VFloat64 string
  | VTime string string
  | VStrings "string list"
  | VList "val list"
  | VOther string

text \<open>
  A map is an association list; its keys are distinct in every map a Go program can build.
  Lookup is \<^const>\<open>map_of\<close>.
\<close>

type_synonym gomap = "(string \<times> val) list"

text \<open>Decimal digits of a number, as \<^verbatim>\<open>%v\<close> and \<^verbatim>\<open>%d\<close> print an integer.\<close>

fun natDigits :: "nat \<Rightarrow> string" where
  "natDigits n =
     (if n < 10 then [''0123456789'' ! n]
      else natDigits (n div 10) @ [''0123456789'' ! (n mod 10)])"

declare natDigits.simps [simp del]

definition intDigits :: "int \<Rightarrow> string" where
  "intDigits i = (if i < 0 then CHR ''-'' # natDigits (nat (- i)) else natDigits (nat i))"

text \<open>\<^verbatim>\<open>fmt.Sprintf("%v", v)\<close>: a slice prints its elements between brackets, separated by one space.\<close>

fun Sprintf_v :: "val \<Rightarrow> string" where
  "Sprintf_v VNil = ''<nil>''"
| "Sprintf_v (VString s) = s"
| "Sprintf_v (VBool b) = (if b then ''true'' else ''false'')"
| "Sprintf_v (VInt i) = intDigits i"
| "Sprintf_v (VInt64 i) = intDigits i"
| "Sprintf_v (VFloat64 shown) = shown"
| "Sprintf_v (VTime shown rfc3339) = shown"
| "Sprintf_v (VStrings xs) = ''['' @ Join xs '' '' @ '']''"
| "Sprintf_v (VList vs) = ''['' @ Join (map Sprintf_v vs) '' '' @ '']''"
| "Sprintf_v (VOther shown) = shown"

section \<open>Dates: \<^verbatim>\<open>time.Parse("2006-01-02", s)\<close>\<close>

text \<open>
  The only times the helpers build are midnights in UTC, parsed with the layout
  \<^verbatim>\<open>2006-01-02\<close>, and the zero \<^verbatim>\<open>time.Time\<close>, which is 1 January of year 1. A time is
  its year, month and day. \<^verbatim>\<open>time.Parse\<close> wants four digits, a dash, two digits, a dash,
  two digits and nothing else, a month from 1 to 12 and a day that the month has; it
  accepts every year from 0000 to 9999. On failure it returns the zero time and an error.
\<close>

record time =
  year :: nat
  month :: nat
  day :: nat

definition zeroTime :: time where
  "zeroTime = \<lparr>year = 1, month = 1, day = 1\<rparr>"

definition isDigit :: "char \<Rightarrow> bool" where
  "isDigit c = (CHR ''0'' \<le> c \<and> c \<le> CHR ''9'')"

definition digitVal :: "char \<Rightarrow> nat" where
  "digitVal c = of_char c - of_char CHR ''0''"

definition isLeap :: "nat \<Rightarrow> bool" where
  "isLeap y = (y mod 4 = 0 \<and> (y mod 100 \<noteq> 0 \<or> y mod 400 = 0))"

definition daysIn :: "nat \<Rightarrow> nat \<Rightarrow> nat" where
  "daysIn m y =
     (if m = 2 then (if isLeap y then 29 else 28)
      else if m = 4 \<or> m = 6 \<or> m = 9 \<or> m = 11 then 30 else 31)"

datatype parseError = ParseError

fun Parse :: "string \<Rightarrow> time \<times> parseError option" where
  "Parse [y1, y2, y3, y4, d1, m1, m2, d2, t1, t2] =
     (if isDigit y1 \<and> isDigit y2 \<and> isDigit y3 \<and> isDigit y4 \<and> d1 = CHR ''-''
         \<and> isDigit m1 \<and> isDigit m2 \<and> d2 = CHR ''-'' \<and> isDigit t1 \<and> isDigit t2
      then
        let y = 1000 * digitVal y1 + 100 * digitVal y2 + 10 * digitVal y3 + digitVal y4;
            m = 10 * digitVal m1 + digitVal m2;
            d = 10 * digitVal t1 + digitVal t2
        in if 1 \<le> m \<and> m \<le> 12 \<and> 1 \<le> d \<and> d \<le> daysIn m y
           then (\<lparr>year = y, month = m, day = d\<rparr>, None)
           else (zeroTime, Some ParseError)
      else (zeroTime, Some ParseError))"
| "Parse s = (zeroTime, Some ParseError)"

text \<open>\<^verbatim>\<open>t.Before(u)\<close>: \<open>t\<close> is an earlier instant than \<open>u\<close>.\<close>

definition Before :: "time \<Rightarrow> time \<Rightarrow> bool" where
  "Before t u =
     (year t < year u
      \<or> (year t = year u \<and> (month t < month u \<or> (month t = month u \<and> day t < day u))))"

section \<open>The condition evaluator\<close>

text \<open>\<^verbatim>\<open>flattenToStrings\<close>\<close>

fun flattenToStrings :: "val \<Rightarrow> string list" where
  "flattenToStrings VNil = []"
| "flattenToStrings (VList arr) = map Sprintf_v arr"
| "flattenToStrings (VStrings arr) = arr"
| "flattenToStrings v = [Sprintf_v v]"

text \<open>
  \<^verbatim>\<open>CheckCondition\<close>. The three shapes are tried in the order of the source. Each branch
  reads element 1 of a split, which panics when the split has one piece only.
\<close>

definition CheckCondition :: "gomap \<Rightarrow> string \<Rightarrow> panic + bool" where
  "CheckCondition front cond =
     (if Contains cond ''<'' \<and> HasPrefix cond ''date'' then
        (case at (Split cond ''<'') 1 of
           Inl p \<Rightarrow> Inl p
         | Inr part1 \<Rightarrow>
             let cutoff = TrimSpace part1;
                 cutoffTime = fst (Parse cutoff)
             in (case map_of front ''date'' of
                   Some val \<Rightarrow>
                     let dateStr = Sprintf_v val;
                         (postTime, err) = Parse dateStr
                     in if err = None \<and> Before postTime cutoffTime then Inr True
                        else Inr False
                 | None \<Rightarrow> Inr False))
      else if Contains cond ''contains'' then
        (let parts = Split cond ''contains'' in
         case at parts 0 of
           Inl p \<Rightarrow> Inl p
         | Inr part0 \<Rightarrow>
             let key = TrimSpace part0 in
             (case at parts 1 of
                Inl p \<Rightarrow> Inl p
              | Inr part1 \<Rightarrow>
                  let rawNeedle = Trim (TrimSpace part1) [CHR 0x22, CHR 0x27] in
                  (case map_of front key of
                     Some val \<Rightarrow> Inr (rawNeedle \<in> set (flattenToStrings val))
                   | None \<Rightarrow> Inr False)))
      else if Contains cond ''='' then
        (let parts = Split cond ''='' in
         case at parts 0 of
           Inl p \<Rightarrow> Inl p
         | Inr part0 \<Rightarrow>
             let key = TrimSpace part0 in
             (case at parts 1 of
                Inl p \<Rightarrow> Inl p
              | Inr part1 \<Rightarrow>
                  let value = TrimSpace part1 in
                  (case map_of front key of
                     Some val \<Rightarrow> Inr (Sprintf_v val = value)
                   | None \<Rightarrow> Inr False)))
      else Inr False)"

text \<open>
  \<^verbatim>\<open>EvaluateConditions\<close>: the inner loop over the pieces between \<^verbatim>\<open>&&\<close> stops at the
  first condition that is not met, the outer loop over the pieces between \<^verbatim>\<open>||\<close> returns
  at the first clause whose conditions are all met.
\<close>

fun allAnds :: "gomap \<Rightarrow> string list \<Rightarrow> panic + bool" where
  "allAnds front [] = Inr True"
| "allAnds front (andClause # rest) =
     (case CheckCondition front (TrimSpace andClause) of
        Inl p \<Rightarrow> Inl p
      | Inr ok \<Rightarrow> if \<not> ok then Inr False else allAnds front rest)"

fun anyClause :: "gomap \<Rightarrow> string list \<Rightarrow> panic + bool" where
  "anyClause front [] = Inr False"
| "anyClause front (clause # rest) =
     (case allAnds front (Split clause ''&&'') of
        Inl p \<Rightarrow> Inl p
      | Inr all \<Rightarrow> if all then Inr True else anyClause front rest)"

definition EvaluateConditions :: "gomap \<Rightarrow> string \<Rightarrow> panic + bool" where
  "EvaluateConditions front cond =
     (let cond1 = ReplaceAll cond '' AND '' '' && '';
          cond2 = ReplaceAll cond1 '' OR '' '' || '';
          clauses = Split cond2 ''||''
      in anyClause front clauses)"

section \<open>The rules of the evaluator, one by one\<close>

text \<open>
  The text of \<open>s\<close> before the first occurrence of \<open>sep\<close> (all of \<open>s\<close> when there is
  none), and the text after it.
\<close>

definition before_sep :: "string \<Rightarrow> string \<Rightarrow> string" where
  "before_sep s sep = (case Index s sep of None \<Rightarrow> s | Some m \<Rightarrow> take m s)"

definition after_sep :: "string \<Rightarrow> string \<Rightarrow> string" where
  "after_sep s sep = (case Index s sep of None \<Rightarrow> [] | Some m \<Rightarrow> drop (m + length sep) s)"

text \<open>The shape that selects the date rule.\<close>

definition isDateShape :: "string \<Rightarrow> bool" where
  "isDateShape clause = (Contains clause ''<'' \<and> HasPrefix clause ''date'')"

text \<open>
  What each rule of \<^const>\<open>CheckCondition\<close> answers once it is selected. The right-hand side
  of a clause is the text between the first and the second occurrence of the operator.
\<close>

definition dateRule :: "gomap \<Rightarrow> string \<Rightarrow> bool" where
  "dateRule front clause =
     (let cutoffTime = fst (Parse (TrimSpace (before_sep (after_sep clause ''<'') ''<'')))
      in case map_of front ''date'' of
           None \<Rightarrow> False
         | Some val \<Rightarrow>
             snd (Parse (Sprintf_v val)) = None
             \<and> Before (fst (Parse (Sprintf_v val))) cutoffTime)"

definition membershipRule :: "gomap \<Rightarrow> string \<Rightarrow> bool" where
  "membershipRule front clause =
     (let key = TrimSpace (before_sep clause ''contains'');
          needle = Trim (TrimSpace (before_sep (after_sep clause ''contains'') ''contains''))
                     [CHR 0x22, CHR 0x27]
      in case map_of front key of
           None \<Rightarrow> False
         | Some val \<Rightarrow> needle \<in> set (flattenToStrings val))"

definition equalityRule :: "gomap \<Rightarrow> string \<Rightarrow> bool" where
  "equalityRule front clause =
     (let key = TrimSpace (before_sep clause ''='');
          expected = TrimSpace (before_sep (after_sep clause ''='') ''='')
      in case map_of front key of
           None \<Rightarrow> False
         | Some val \<Rightarrow> Sprintf_v val = expected)"

text \<open>
  The membership rule as the specification words it: the clause is cut at the first
  occurrence of \<^verbatim>\<open>contains\<close>, the needle is the whole right side, trimmed, without one layer
  of surrounding quotes, and an absent field flattens to the empty sequence.
\<close>

definition stripOneLayer :: "string \<Rightarrow> string" where
  "stripOneLayer s =
     (if 2 \<le> length s \<and> hd s \<in> {CHR 0x22, CHR 0x27} \<and> last s = hd s
      then butlast (tl s) else s)"

definition spec_membership :: "gomap \<Rightarrow> string \<Rightarrow> bool" where
  "spec_membership front clause =
     (let key = TrimSpace (before_sep clause ''contains'');
          needle = stripOneLayer (TrimSpace (after_sep clause ''contains''));
          flat = (case map_of front key of None \<Rightarrow> [] | Some val \<Rightarrow> flattenToStrings val)
      in needle \<in> set flat)"

section \<open>Splitting a file into frontmatter and body\<close>

abbreviation newline :: string where
  "newline \<equiv> [CHR 0x0A]"

definition YamlDelimiter :: string where
  "YamlDelimiter = ''---''"

definition TomlDelimiter :: string where
  "TomlDelimiter = ''+++''"

definition JsonDelimiter :: string where
  "JsonDelimiter = ''{''"

text \<open>
  \<^verbatim>\<open>SplitFrontmatter\<close> returns the delimiter, the frontmatter and the body. The Go
  function returns a nil slice for the frontmatter when there is none; here it is the
  empty string. The two fenced branches read \<^verbatim>\<open>parts[1]\<close> without a check.
\<close>

definition SplitFrontmatter :: "string \<Rightarrow> panic + (string \<times> string \<times> string)" where
  "SplitFrontmatter data =
     (let content = data in
      if HasPrefix content (''---'' @ newline) then
        (let parts = SplitN (drop 4 content) ''---'' 2 in
         case at parts 0 of
           Inl p \<Rightarrow> Inl p
         | Inr part0 \<Rightarrow>
             (case at parts 1 of
                Inl p \<Rightarrow> Inl p
              | Inr part1 \<Rightarrow> Inr (''---'', part0, part1)))
      else if HasPrefix content (''+++'' @ newline) then
        (let parts = SplitN (drop 4 content) ''+++'' 2 in
         case at parts 0 of
           Inl p \<Rightarrow> Inl p
         | Inr part0 \<Rightarrow>
             (case at parts 1 of
                Inl p \<Rightarrow> Inl p
              | Inr part1 \<Rightarrow> Inr (''+++'', part0, part1)))
      else if HasPrefix content ''{'' then
        (case Index content (''}'' @ newline) of
           Some idx \<Rightarrow>
             if idx > 0 then Inr (''{'', take (idx + 1) content, drop (idx + 2) content)
             else Inr ('''', [], data)
         | None \<Rightarrow> Inr ('''', [], data))
      else Inr ('''', [], data))"

section \<open>Library calls of the codec\<close>

text \<open>
  What the codec asks of libraries whose code is not the repository's is a parameter of
  the model: whether \<^verbatim>\<open>fmt.Sscanf(s, "%f", ...)\<close> succeeds, the table behind
  \<^verbatim>\<open>strconv.IsPrint\<close> for runes above U+00FF, \<^verbatim>\<open>toml.Marshal\<close> of a map of one field
  (\<open>None\<close> when it fails), \<^verbatim>\<open>json.MarshalIndent\<close> of a whole map with two spaces of
  indentation, and the three parsers \<^verbatim>\<open>yaml.Unmarshal\<close>, \<^verbatim>\<open>toml.Unmarshal\<close> and
  \<^verbatim>\<open>json.Unmarshal\<close> into a map. Every theorem below holds for all values of these
  parameters.
\<close>

datatype error = UnsupportedFormat string | UnknownFormat string | LibraryError string

record lib =
  Sscanf_float :: "string \<Rightarrow> bool"
  IsPrint_table :: "nat \<Rightarrow> bool"
  toml_Marshal :: "string \<Rightarrow> val \<Rightarrow> string option"
  json_MarshalIndent :: "gomap \<Rightarrow> error + string"
  yaml_Unmarshal :: "string \<Rightarrow> error + gomap"
  toml_Unmarshal :: "string \<Rightarrow> error + gomap"
  json_Unmarshal :: "string \<Rightarrow> error + gomap"

text \<open>
  \<^verbatim>\<open>utf8.DecodeRuneInString\<close>: the first rune of a string and its width in bytes; bytes
  that are not a well-formed encoding give U+FFFD and width 1.
\<close>

definition byte :: "char \<Rightarrow> nat" where
  "byte c = of_char c"

definition RuneError :: nat where
  "RuneError = 0xFFFD"

definition inRange :: "nat \<Rightarrow> nat \<Rightarrow> char \<Rightarrow> bool" where
  "inRange lo hi c = (lo \<le> byte c \<and> byte c \<le> hi)"

fun DecodeRune :: "string \<Rightarrow> nat \<times> nat" where
  "DecodeRune [] = (RuneError, 0)"
| "DecodeRune (b0 # rest) =
     (let x = byte b0 in
      if x < 0x80 then (x, 1)
      else if 0xC2 \<le> x \<and> x \<le> 0xDF then
        (case rest of
           b1 # _ \<Rightarrow>
             if inRange 0x80 0xBF b1 then ((x - 0xC0) * 64 + (byte b1 - 0x80), 2)
             else (RuneError, 1)
         | _ \<Rightarrow> (RuneError, 1))
      else if 0xE0 \<le> x \<and> x \<le> 0xEF then
        (case rest of
           b1 # b2 # _ \<Rightarrow>
             if inRange (if x = 0xE0 then 0xA0 else 0x80) (if x = 0xED then 0x9F else 0xBF) b1
                \<and> inRange 0x80 0xBF b2
             then (((x - 0xE0) * 64 + (byte b1 - 0x80)) * 64 + (byte b2 - 0x80), 3)
             else (RuneError, 1)
         | _ \<Rightarrow> (RuneError, 1))
      else if 0xF0 \<le> x \<and> x \<le> 0xF4 then
        (case rest of
           b1 # b2 # b3 # _ \<Rightarrow>
             if inRange (if x = 0xF0 then 0x90 else 0x80) (if x = 0xF4 then 0x8F else 0xBF) b1
                \<and> inRange 0x80 0xBF b2 \<and> inRange 0x80 0xBF b3
             then ((((x - 0xF0) * 64 + (byte b1 - 0x80)) * 64 + (byte b2 - 0x80)) * 64
                   + (byte b3 - 0x80), 4)
             else (RuneError, 1)
         | _ \<Rightarrow> (RuneError, 1))
      else (RuneError, 1))"

text \<open>\<^verbatim>\<open>strconv.IsPrint\<close>: decided in the code for Latin-1, by tables above.\<close>

definition IsPrint :: "lib \<Rightarrow> nat \<Rightarrow> bool" where
  "IsPrint l r =
     (if r \<le> 0xFF then (0x20 \<le> r \<and> r \<le> 0x7E) \<or> (0xA1 \<le> r \<and> r \<noteq> 0xAD)
      else IsPrint_table l r)"

definition lowerhex :: "nat \<Rightarrow> char" where
  "lowerhex n = ''0123456789abcdef'' ! (n mod 16)"

abbreviation backslash :: char where
  "backslash \<equiv> CHR 0x5C"

text \<open>
  \<^verbatim>\<open>strconv.appendEscapedRune\<close> for the double quote: \<open>enc\<close> is the UTF-8 encoding of the
  rune \<open>r\<close>.
\<close>

definition appendEscapedRune :: "lib \<Rightarrow> nat \<Rightarrow> string \<Rightarrow> string" where
  "appendEscapedRune l r enc =
     (if r = 0x22 \<or> r = 0x5C then [backslash, char_of r]
      else if IsPrint l r then enc
      else if r = 0x07 then [backslash, CHR ''a'']
      else if r = 0x08 then [backslash, CHR ''b'']
      else if r = 0x0C then [backslash, CHR ''f'']
      else if r = 0x0A then [backslash, CHR ''n'']
      else if r = 0x0D then [backslash, CHR ''r'']
      else if r = 0x09 then [backslash, CHR ''t'']
      else if r = 0x0B then [backslash, CHR ''v'']
      else if r < 0x20 \<or> r = 0x7F then
        [backslash, CHR ''x'', lowerhex (r div 16), lowerhex r]
      else if r < 0x10000 then
        [backslash, CHR ''u'', lowerhex (r div 4096), lowerhex (r div 256),
         lowerhex (r div 16), lowerhex r]
      else
        [backslash, CHR ''U'', lowerhex (r div 268435456), lowerhex (r div 16777216),
         lowerhex (r div 1048576), lowerhex (r div 65536), lowerhex (r div 4096),
         lowerhex (r div 256), lowerhex (r div 16), lowerhex r])"

text \<open>
  The loop of \<^verbatim>\<open>strconv.appendQuotedWith\<close>; \<open>k\<close> counts the bytes of the current rune
  that are still to be passed over.
\<close>

fun quoteLoop :: "lib \<Rightarrow> nat \<Rightarrow> string \<Rightarrow> string" where
  "quoteLoop l k [] = []"
| "quoteLoop l (Suc k) (c # cs) = quoteLoop l k cs"
| "quoteLoop l 0 (c # cs) =
     (let (r, width) = DecodeRune (c # cs) in
      (if width = 1 \<and> r = RuneError
       then [backslash, CHR ''x'', lowerhex (byte c div 16), lowerhex (byte c)]
       else appendEscapedRune l r (take width (c # cs)))
      @ quoteLoop l (width - 1) cs)"

text \<open>\<^verbatim>\<open>fmt.Sprintf("%q", s)\<close> is \<^verbatim>\<open>strconv.Quote(s)\<close>.\<close>

definition Quote :: "lib \<Rightarrow> string \<Rightarrow> string" where
  "Quote l s = [CHR 0x22] @ quoteLoop l 0 s @ [CHR 0x22]"

section \<open>The encoder\<close>

text \<open>\<^verbatim>\<open>needsQuotes\<close>. All the special characters are ASCII, so the loop over the runes of
  \<open>s\<close> finds one exactly when a byte of \<open>s\<close> is one.\<close>

definition needsQuotes :: "lib \<Rightarrow> string \<Rightarrow> bool" where
  "needsQuotes l s =
     (if s = [] then True
      else if s = ''true'' \<or> s = ''false'' \<or> s = ''yes'' \<or> s = ''no'' \<or> s = ''null''
              \<or> s = ''~'' then True
      else if Sscanf_float l s then True
      else if list_ex (\<lambda>ch. ch \<in> set (''{}[]#&*!|>'' @ [CHR 0x27, CHR 0x22] @ ''%@`, '')) s
        then True
      else if HasPrefix s ''-'' \<or> HasPrefix s '':'' \<or> HasPrefix s ''?'' then True
      else False)"

text \<open>\<^verbatim>\<open>formatYAMLValue\<close>\<close>

fun formatYAMLValue :: "lib \<Rightarrow> val \<Rightarrow> string" where
  "formatYAMLValue l (VString v) = (if needsQuotes l v then Quote l v else v)"
| "formatYAMLValue l v = Sprintf_v v"

text \<open>\<^verbatim>\<open>formatArrayItems\<close>\<close>

fun formatArrayItems :: "lib \<Rightarrow> val \<Rightarrow> string list" where
  "formatArrayItems l (VList v) = map (formatYAMLValue l) v"
| "formatArrayItems l (VStrings v) = map (Quote l) v"
| "formatArrayItems l arr = []"

text \<open>\<^verbatim>\<open>addYAMLField\<close> appends to the builder, which is passed in and returned.\<close>

fun addYAMLField :: "lib \<Rightarrow> string \<Rightarrow> string \<Rightarrow> val \<Rightarrow> string" where
  "addYAMLField l builder field (VList v) =
     builder @ field @ '': ['' @ Join (formatArrayItems l (VList v)) '', '' @ '']'' @ newline"
| "addYAMLField l builder field (VStrings v) =
     builder @ field @ '': ['' @ Join (formatArrayItems l (VStrings v)) '', '' @ '']'' @ newline"
| "addYAMLField l builder field value =
     builder @ field @ '': '' @ formatYAMLValue l value @ newline"

text \<open>One pass of the loop over the sorted keys in the TOML branch: what is written for a key.\<close>

fun tomlItem :: "lib \<Rightarrow> val \<Rightarrow> string" where
  "tomlItem l (VString val) = Quote l val"
| "tomlItem l item = Sprintf_v item"

fun tomlField :: "lib \<Rightarrow> string \<Rightarrow> val \<Rightarrow> string" where
  "tomlField l key (VStrings v) = key @ '' = ['' @ Join (map (Quote l) v) '', '' @ '']'' @ newline"
| "tomlField l key (VList v) = key @ '' = ['' @ Join (map (tomlItem l) v) '', '' @ '']'' @ newline"
| "tomlField l key (VString v) = key @ '' = '' @ Quote l v @ newline"
| "tomlField l key (VBool v) = key @ '' = '' @ (if v then ''true'' else ''false'') @ newline"
| "tomlField l key (VInt v) = key @ '' = '' @ Sprintf_v (VInt v) @ newline"
| "tomlField l key (VInt64 v) = key @ '' = '' @ Sprintf_v (VInt64 v) @ newline"
| "tomlField l key (VFloat64 v) = key @ '' = '' @ Sprintf_v (VFloat64 v) @ newline"
| "tomlField l key (VTime shown rfc3339) = key @ '' = '' @ Quote l rfc3339 @ newline"
| "tomlField l key value =
     (case toml_Marshal l key value of
        Some fieldData \<Rightarrow>
          ReplaceAll (ReplaceAll (ReplaceAll fieldData (''['' @ newline) ''['')
                        (newline @ '']'') '']'')
            ('','' @ newline) '', ''
      | None \<Rightarrow> key @ '' = '' @ Sprintf_v value @ newline)"

text \<open>
  Maps are objects: a variable of map type holds a reference, and \<^verbatim>\<open>delete\<close> and an
  assignment to an element change the object for every holder of the reference. The heap
  is the list of all map objects; a reference is a position in it. \<^verbatim>\<open>make\<close> adds an
  empty map at the end.
\<close>

type_synonym ref = nat
type_synonym heap = "gomap list"

definition make_map :: "heap \<Rightarrow> ref \<times> heap" where
  "make_map h = (length h, h @ [[]])"

definition map_store :: "heap \<Rightarrow> ref \<Rightarrow> string \<Rightarrow> val \<Rightarrow> heap" where
  "map_store h r k v = h[r := AList.update k v (h ! r)]"

definition map_delete :: "heap \<Rightarrow> ref \<Rightarrow> string \<Rightarrow> heap" where
  "map_delete h r k = h[r := AList.delete k (h ! r)]"

text \<open>\<^verbatim>\<open>m[k]\<close> read without the second result: the zero value \<^verbatim>\<open>nil\<close> for a missing key.\<close>

definition map_index :: "gomap \<Rightarrow> string \<Rightarrow> val" where
  "map_index m k = (case map_of m k of Some v \<Rightarrow> v | None \<Rightarrow> VNil)"

text \<open>
  A \<^verbatim>\<open>range\<close> over a map visits its entries in an order that the Go runtime chooses anew
  each time. The order of a loop is a parameter: a function that rearranges the entries.
\<close>

type_synonym order = "gomap \<Rightarrow> gomap"

definition orderedFields :: "string list" where
  "orderedFields = [''title'', ''date'', ''draft'', ''series'', ''categories'', ''tags'']"

text \<open>The first loop of the YAML branch, over \<^const>\<open>orderedFields\<close>, on the copy at \<open>c\<close>.\<close>

fun yamlOrdered :: "lib \<Rightarrow> string list \<Rightarrow> ref \<Rightarrow> string \<times> heap \<Rightarrow> string \<times> heap" where
  "yamlOrdered l [] c (builder, h) = (builder, h)"
| "yamlOrdered l (field # rest) c (builder, h) =
     (case map_of (h ! c) field of
        Some value \<Rightarrow>
          yamlOrdered l rest c (addYAMLField l builder field value, map_delete h c field)
      | None \<Rightarrow> yamlOrdered l rest c (builder, h))"

text \<open>
  \<^verbatim>\<open>MarshalFrontmatter\<close>, given the map by reference; it returns its result and the heap
  it leaves. \<open>copyOrder\<close> is the order of the loop that copies the map, \<open>keysOrder\<close> the
  order of the loop that collects the keys of the copy.
\<close>

definition MarshalFrontmatter ::
  "lib \<Rightarrow> order \<Rightarrow> order \<Rightarrow> string \<Rightarrow> ref \<Rightarrow> heap \<Rightarrow> (error + string) \<times> heap" where
  "MarshalFrontmatter l copyOrder keysOrder delimiter front h =
     (let (frontCopy, h1) = make_map h;
          h2 = fold (\<lambda>(k, v) h'. map_store h' frontCopy k v) (copyOrder (h1 ! front)) h1
      in if delimiter = YamlDelimiter then
           (let (builder, h3) = yamlOrdered l orderedFields frontCopy ([], h2);
                remainingFields = sort (map fst (keysOrder (h3 ! frontCopy)));
                orderedYAML =
                  fold (\<lambda>field b. addYAMLField l b field (map_index (h3 ! frontCopy) field))
                    remainingFields builder
            in (Inr orderedYAML, h3))
         else if delimiter = TomlDelimiter then
           (let keys = sort (map fst (keysOrder (h2 ! frontCopy)));
                buf = fold (\<lambda>key b. b @ tomlField l key (map_index (h2 ! frontCopy) key)) keys []
            in (Inr buf, h2))
         else if delimiter = JsonDelimiter then (json_MarshalIndent l (h2 ! frontCopy), h2)
         else (Inl (UnsupportedFormat delimiter), h2))"


section \<open>The decoder and the round trip\<close>

text \<open>
  \<^verbatim>\<open>UnmarshalFrontmatter\<close> hands the bytes to the parser of the format. The Go function
  returns the map together with the error; here it is one or the other.
\<close>

definition UnmarshalFrontmatter :: "lib \<Rightarrow> string \<Rightarrow> string \<Rightarrow> error + gomap" where
  "UnmarshalFrontmatter l delimiter data =
     (if delimiter = YamlDelimiter then yaml_Unmarshal l data
      else if delimiter = TomlDelimiter then toml_Unmarshal l data
      else if delimiter = JsonDelimiter then json_Unmarshal l data
      else Inl (UnknownFormat delimiter))"

text \<open>Decoding and encoding again, the decoded map being a new object in an empty heap.\<close>

definition roundTrip :: "lib \<Rightarrow> order \<Rightarrow> order \<Rightarrow> string \<Rightarrow> string \<Rightarrow> error + string" where
  "roundTrip l copyOrder keysOrder delimiter data =
     (case UnmarshalFrontmatter l delimiter data of
        Inl e \<Rightarrow> Inl e
      | Inr front \<Rightarrow> fst (MarshalFrontmatter l copyOrder keysOrder delimiter 0 [front]))"

section \<open>What the encoder is to write\<close>

text \<open>
  The order of the keys in the YAML output: the fields of \<^const>\<open>orderedFields\<close> that the
  map has, in that order, then the other keys of the map, sorted as \<^verbatim>\<open>sort.Strings\<close>
  sorts, by bytes. In the TOML output: all keys, sorted.
\<close>

definition yamlKeyOrder :: "gomap \<Rightarrow> string list" where
  "yamlKeyOrder m =
     filter (\<lambda>k. map_of m k \<noteq> None) orderedFields
     @ sort (filter (\<lambda>k. k \<notin> set orderedFields) (map fst m))"

definition tomlKeyOrder :: "gomap \<Rightarrow> string list" where
  "tomlKeyOrder m = sort (map fst m)"

text \<open>An order of a \<^verbatim>\<open>range\<close> loop only rearranges the entries of a map.\<close>

definition isPermutation :: "order \<Rightarrow> bool" where
  "isPermutation ord = (\<forall>m. mset (ord m) = mset m)"

text \<open>
  The values that the encoder treats as sequences, and the inline form of a sequence
  field, without the newline that ends it.
\<close>

definition isSequence :: "val \<Rightarrow> bool" where
  "isSequence v = (case v of VList xs \<Rightarrow> True | VStrings xs \<Rightarrow> True | _ \<Rightarrow> False)"

definition tomlArrayItems :: "lib \<Rightarrow> val \<Rightarrow> string list" where
  "tomlArrayItems l v =
     (case v of VStrings xs \<Rightarrow> map (Quote l) xs | VList xs \<Rightarrow> map (tomlItem l) xs | _ \<Rightarrow> [])"

definition inlineYAML :: "lib \<Rightarrow> string \<Rightarrow> val \<Rightarrow> string" where
  "inlineYAML l k v = k @ '': ['' @ Join (formatArrayItems l v) '', '' @ '']''"

definition inlineTOML :: "lib \<Rightarrow> string \<Rightarrow> val \<Rightarrow> string" where
  "inlineTOML l k v = k @ '' = ['' @ Join (tomlArrayItems l v) '', '' @ '']''"

definition singleLine :: "string \<Rightarrow> bool" where
  "singleLine s = (CHR 0x0A \<notin> set s)"

abbreviation dquote :: string where
  "dquote \<equiv> [CHR 0x22]"

section \<open>Properties of the condition evaluator\<close>

subsection \<open>Pieces of a split\<close>

lemma Split_None: "Index s (c # cs) = None \<Longrightarrow> Split s (c # cs) = [s]"
  by (simp add: Split_def)

lemma Split_Some:
  "Index s (c # cs) = Some m \<Longrightarrow>
   Split s (c # cs) = take m s # Split (drop (m + length (c # cs)) s) (c # cs)"
  by (simp add: Split_def)

lemma Split_first: "at (Split s (c # cs)) 0 = Inr (before_sep s (c # cs))"
  by (cases "Index s (c # cs)") (simp_all add: Split_None Split_Some at_def before_sep_def)

lemma Split_second:
  assumes "Contains s (c # cs)"
  shows "at (Split s (c # cs)) 1 = Inr (before_sep (after_sep s (c # cs)) (c # cs))"
proof -
  from assms obtain m where m: "Index s (c # cs) = Some m"
    by (auto simp: Contains_def)
  let ?rest = "drop (m + length (c # cs)) s"
  have "at (Split ?rest (c # cs)) 0 = Inr (before_sep ?rest (c # cs))"
    by (rule Split_first)
  then have "Split ?rest (c # cs) \<noteq> [] \<and> hd (Split ?rest (c # cs)) = before_sep ?rest (c # cs)"
    by (cases "Split ?rest (c # cs)") (simp_all add: at_def)
  with m show ?thesis
    by (cases "Split ?rest (c # cs)") (simp_all add: Split_Some at_def after_sep_def)
qed

subsection \<open>The branches of \<^const>\<open>CheckCondition\<close>\<close>

lemma CheckCondition_shapes:
  "CheckCondition front clause =
     (if isDateShape clause then
        (case at (Split clause ''<'') 1 of
           Inl p \<Rightarrow> Inl p
         | Inr part1 \<Rightarrow>
             (case map_of front ''date'' of
                Some val \<Rightarrow>
                  Inr (snd (Parse (Sprintf_v val)) = None
                       \<and> Before (fst (Parse (Sprintf_v val))) (fst (Parse (TrimSpace part1))))
              | None \<Rightarrow> Inr False))
      else if Contains clause ''contains'' then
        (case at (Split clause ''contains'') 0 of
           Inl p \<Rightarrow> Inl p
         | Inr part0 \<Rightarrow>
             (case at (Split clause ''contains'') 1 of
                Inl p \<Rightarrow> Inl p
              | Inr part1 \<Rightarrow>
                  (case map_of front (TrimSpace part0) of
                     Some val \<Rightarrow>
                       Inr (Trim (TrimSpace part1) [CHR 0x22, CHR 0x27]
                            \<in> set (flattenToStrings val))
                   | None \<Rightarrow> Inr False)))
      else if Contains clause ''='' then
        (case at (Split clause ''='') 0 of
           Inl p \<Rightarrow> Inl p
         | Inr part0 \<Rightarrow>
             (case at (Split clause ''='') 1 of
                Inl p \<Rightarrow> Inl p
              | Inr part1 \<Rightarrow>
                  (case map_of front (TrimSpace part0) of
                     Some val \<Rightarrow> Inr (Sprintf_v val = TrimSpace part1)
                   | None \<Rightarrow> Inr False)))
      else Inr False)"
  unfolding CheckCondition_def isDateShape_def Let_def
  by (simp split: sum.splits option.splits prod.splits)

lemma CheckCondition_rules:
  "CheckCondition front clause =
     Inr (if isDateShape clause then dateRule front clause
          else if Contains clause ''contains'' then membershipRule front clause
          else if Contains clause ''='' then equalityRule front clause
          else False)"
proof -
  consider (d) "isDateShape clause"
    | (c) "\<not> isDateShape clause" "Contains clause ''contains''"
    | (e) "\<not> isDateShape clause" "\<not> Contains clause ''contains''" "Contains clause ''=''"
    | (n) "\<not> isDateShape clause" "\<not> Contains clause ''contains''" "\<not> Contains clause ''=''"
    by blast
  then show ?thesis
  proof cases
    case d
    then have "Contains clause ''<''" by (simp add: isDateShape_def)
    from Split_second [OF this] d show ?thesis
      by (simp add: CheckCondition_shapes dateRule_def Let_def split: option.splits)
  next
    case c
    from Split_second [OF c(2)] Split_first [of clause "CHR ''c''" "''ontains''"] c show ?thesis
      by (simp add: CheckCondition_shapes membershipRule_def Let_def split: option.splits)
  next
    case e
    from Split_second [OF e(3)] Split_first [of clause "CHR ''=''" "[]"] e show ?thesis
      by (simp add: CheckCondition_shapes equalityRule_def Let_def split: option.splits)
  next
    case n
    then show ?thesis by (simp add: CheckCondition_shapes)
  qed
qed

lemma CheckCondition_returns: "\<exists>b. CheckCondition front clause = Inr b"
  using CheckCondition_rules by blast

lemma allAnds_returns: "\<exists>b. allAnds front ands = Inr b"
proof (induction ands)
  case Nil
  show ?case by (simp, blast)
next
  case (Cons a ands)
  obtain b where b: "CheckCondition front (TrimSpace a) = Inr b"
    using CheckCondition_returns by blast
  show ?case
  proof (cases b)
    case True
    with b Cons.IH show ?thesis by simp
  next
    case False
    with b have "allAnds front (a # ands) = Inr False" by simp
    then show ?thesis by blast
  qed
qed

lemma anyClause_returns: "\<exists>b. anyClause front clauses = Inr b"
proof (induction clauses)
  case Nil
  show ?case by (simp, blast)
next
  case (Cons a clauses)
  obtain b where b: "allAnds front (Split a ''&&'') = Inr b"
    using allAnds_returns by blast
  show ?case
  proof (cases b)
    case True
    with b have "anyClause front (a # clauses) = Inr True" by simp
    then show ?thesis by blast
  next
    case False
    with b Cons.IH show ?thesis by simp
  qed
qed

subsection \<open>The empty expression\<close>

text \<open>
  Claim C1 says that the empty expression is true of every document. It is not:
  \<^verbatim>\<open>strings.Split\<close> of the empty string is one empty piece, not no piece, and the empty
  clause has none of the three shapes.
\<close>

theorem EvaluateConditions_empty_not_true:
  "\<not> (\<forall>D. EvaluateConditions D '''' = Inr True)"
  by (simp add: EvaluateConditions_def Split_def CheckCondition_def Contains_def TrimSpace_def)

text \<open>
  Claim C1, amended: for every document, \<^verbatim>\<open>EvaluateConditions\<close> returns false on the
  empty expression.
\<close>

theorem EvaluateConditions_empty_is_false:
  "EvaluateConditions front '''' = Inr False"
  by (simp add: EvaluateConditions_def Split_def CheckCondition_def Contains_def TrimSpace_def)

subsection \<open>The membership rule\<close>

text \<open>
  Claim C5 says that a \<^verbatim>\<open>contains\<close> clause is cut at the first occurrence of \<^verbatim>\<open>contains\<close>
  and that one layer of quotes is taken off the needle. The code takes off every leading
  and trailing quote character, so a needle written with two layers matches the bare
  element; and it cuts at every occurrence, so a needle that itself holds the word
  \<^verbatim>\<open>contains\<close> is lost. Both documents below have a \<^verbatim>\<open>tags\<close> sequence of one element.
\<close>

theorem CheckCondition_membership_differs:
  "CheckCondition [(''tags'', VList [VString ''a''])]
     (''tags contains '' @ [CHR 0x27, CHR 0x27] @ ''a'' @ [CHR 0x27, CHR 0x27]) = Inr True
   \<and> \<not> spec_membership [(''tags'', VList [VString ''a''])]
     (''tags contains '' @ [CHR 0x27, CHR 0x27] @ ''a'' @ [CHR 0x27, CHR 0x27])
   \<and> CheckCondition [(''tags'', VList [VString ''contains-gluten''])]
         (''tags contains 'contains-gluten'' @ [CHR 0x27]) = Inr False
   \<and> spec_membership [(''tags'', VList [VString ''contains-gluten''])]
         (''tags contains 'contains-gluten'' @ [CHR 0x27])"
  by code_simp

text \<open>
  Claim C5, amended: for a clause that is not of the date shape and in which \<^verbatim>\<open>contains\<close>
  occurs exactly once, the key is the left side trimmed, the needle is the right side
  trimmed and then without all its leading and trailing quote characters, and the answer
  is whether the needle equals an element of the flattened field value, an absent field
  counting as the empty sequence.
\<close>

theorem CheckCondition_membership_single:
  assumes "\<not> isDateShape clause" and "Contains clause ''contains''"
    and "\<not> Contains (after_sep clause ''contains'') ''contains''"
  shows "CheckCondition front clause =
     Inr (Trim (TrimSpace (after_sep clause ''contains'')) [CHR 0x22, CHR 0x27]
          \<in> set (case map_of front (TrimSpace (before_sep clause ''contains'')) of
                   None \<Rightarrow> [] | Some val \<Rightarrow> flattenToStrings val))"
proof -
  from assms(3) have "before_sep (after_sep clause ''contains'') ''contains''
      = after_sep clause ''contains''"
    by (simp add: before_sep_def Contains_def)
  with assms(1,2) show ?thesis
    by (simp add: CheckCondition_rules membershipRule_def Let_def split: option.splits)
qed

theorem CheckCondition_membership_single_witness:
  "\<not> isDateShape ''tags contains 'beta' ''
   \<and> Contains ''tags contains 'beta' '' ''contains''
   \<and> \<not> Contains (after_sep ''tags contains 'beta' '' ''contains'') ''contains''
   \<and> CheckCondition [(''tags'', VList [VString ''beta'', VInt 123, VString ''release''])]
        ''tags contains 'beta' '' = Inr True"
proof -
  have h1: "\<not> isDateShape ''tags contains 'beta' ''" by code_simp
  have h2: "Contains ''tags contains 'beta' '' ''contains''" by code_simp
  have h3: "\<not> Contains (after_sep ''tags contains 'beta' '' ''contains'') ''contains''"
    by code_simp
  have v: "(Trim (TrimSpace (after_sep ''tags contains 'beta' '' ''contains''))
              [CHR 0x22, CHR 0x27]
            \<in> set (case map_of
                       [(''tags'', VList [VString ''beta'', VInt 123, VString ''release''])]
                       (TrimSpace (before_sep ''tags contains 'beta' '' ''contains'')) of
                     None \<Rightarrow> [] | Some val \<Rightarrow> flattenToStrings val)) = True"
    by code_simp
  from CheckCondition_membership_single [OF h1 h2 h3,
      of "[(''tags'', VList [VString ''beta'', VInt 123, VString ''release''])]"]
  show ?thesis unfolding v using h1 h2 h3 by simp
qed

subsection \<open>The order of the rules\<close>

text \<open>
  Claim C6: \<^verbatim>\<open>CheckCondition\<close> tries the date rule first (the clause contains \<^verbatim>\<open><\<close> and
  begins with \<^verbatim>\<open>date\<close>), else the membership rule (the clause contains \<^verbatim>\<open>contains\<close>), else
  the equality rule (the clause contains \<^verbatim>\<open>=\<close>); the first shape that fits gives the
  answer, whatever a later rule would say.
\<close>

theorem CheckCondition_priority:
  "CheckCondition front clause =
     Inr (if isDateShape clause then dateRule front clause
          else if Contains clause ''contains'' then membershipRule front clause
          else if Contains clause ''='' then equalityRule front clause
          else False)"
  by (rule CheckCondition_rules)

text \<open>
  The clause \<^verbatim>\<open>date=x<y\<close> has the date shape and the equality shape. The equality rule
  would say true of a document whose \<^verbatim>\<open>date\<close> is \<^verbatim>\<open>x<y\<close>; the date rule says false, and
  so does \<^verbatim>\<open>CheckCondition\<close>.
\<close>

theorem CheckCondition_priority_witness:
  "isDateShape ''date=x<y'' \<and> Contains ''date=x<y'' ''=''
   \<and> equalityRule [(''date'', VString ''x<y'')] ''date=x<y''
   \<and> \<not> dateRule [(''date'', VString ''x<y'')] ''date=x<y''
   \<and> CheckCondition [(''date'', VString ''x<y'')] ''date=x<y'' = Inr False"
proof -
  have h: "isDateShape ''date=x<y''" by code_simp
  have e: "Contains ''date=x<y'' ''=''" by code_simp
  have q: "equalityRule [(''date'', VString ''x<y'')] ''date=x<y''" by code_simp
  have d: "\<not> dateRule [(''date'', VString ''x<y'')] ''date=x<y''" by code_simp
  from CheckCondition_priority [of "[(''date'', VString ''x<y'')]" "''date=x<y''"] h d
  have "CheckCondition [(''date'', VString ''x<y'')] ''date=x<y'' = Inr False" by simp
  with h e q d show ?thesis by simp
qed

subsection \<open>No panic\<close>

text \<open>
  Claim C7: for every document and every expression, well formed or not,
  \<^verbatim>\<open>EvaluateConditions\<close> returns a boolean and does not panic; and a clause that has none
  of the three shapes is false.
\<close>

theorem EvaluateConditions_returns:
  "(\<exists>b. EvaluateConditions front cond = Inr b)
   \<and> (\<not> isDateShape clause \<and> \<not> Contains clause ''contains'' \<and> \<not> Contains clause ''=''
        \<longrightarrow> CheckCondition front clause = Inr False)"
  using anyClause_returns [of front]
  by (simp add: EvaluateConditions_def Let_def CheckCondition_shapes)

theorem EvaluateConditions_returns_witness:
  "(\<exists>b. EvaluateConditions [(''draft'', VBool True)] ''draft AND OR <'' = Inr b)
   \<and> \<not> isDateShape ''draft'' \<and> \<not> Contains ''draft'' ''contains''
   \<and> \<not> Contains ''draft'' ''=''
   \<and> CheckCondition [(''draft'', VBool True)] ''draft'' = Inr False"
proof -
  have h: "\<not> isDateShape ''draft'' \<and> \<not> Contains ''draft'' ''contains''
      \<and> \<not> Contains ''draft'' ''=''"
    by code_simp
  from EvaluateConditions_returns
    [of "[(''draft'', VBool True)]" "''draft AND OR <''" "''draft''"] h
  show ?thesis by blast
qed

subsection \<open>The date rule and a cutoff that does not parse\<close>

lemma Parse_ok_fields:
  assumes "snd (Parse s) = None"
  shows "1 \<le> month (fst (Parse s)) \<and> 1 \<le> day (fst (Parse s))"
  using assms
  by (induction s rule: Parse.induct) (auto simp: Let_def split: if_splits)

lemma Before_zeroTime:
  assumes "snd (Parse s) = None"
  shows "Before (fst (Parse s)) zeroTime \<longleftrightarrow> year (fst (Parse s)) = 0"
  using Parse_ok_fields [OF assms] by (auto simp: Before_def zeroTime_def)

lemma Parse_failed: "snd (Parse s) \<noteq> None \<Longrightarrow> fst (Parse s) = zeroTime"
  by (induction s rule: Parse.induct) (auto simp: Let_def split: if_splits)

text \<open>
  When the cutoff does not parse, the date rule is true of exactly the documents whose
  date parses and lies in year 0000.
\<close>

lemma dateRule_unparsed_cutoff:
  assumes "snd (Parse (TrimSpace (before_sep (after_sep clause ''<'') ''<''))) \<noteq> None"
  shows "dateRule front clause \<longleftrightarrow>
     (\<exists>val. map_of front ''date'' = Some val \<and> snd (Parse (Sprintf_v val)) = None
            \<and> year (fst (Parse (Sprintf_v val))) = 0)"
  using Parse_failed [OF assms]
  by (auto simp: dateRule_def Before_zeroTime split: option.splits)

text \<open>
  Claim C8 says that a parse failure on either side of a date clause gives false. The
  code checks the error of the document's date only; the error of the cutoff is dropped
  and the cutoff becomes the zero time, 1 January of year 1. \<^verbatim>\<open>time.Parse\<close> accepts
  year 0000, which is before it: here the cutoff \<^verbatim>\<open>garbage\<close> does not parse and the
  answer is true.
\<close>

theorem CheckCondition_unparsed_cutoff_true:
  "snd (Parse (TrimSpace ''garbage'')) = Some ParseError
   \<and> CheckCondition [(''date'', VString ''0000-06-15'')] ''date<garbage'' = Inr True"
  by code_simp

section \<open>Properties of \<^const>\<open>SplitFrontmatter\<close>\<close>

lemma SplitN_None: "Index s sep = None \<Longrightarrow> SplitN s sep n = [s]"
  by (cases "min n (length s + 1) - 1") (simp_all add: SplitN_def)

text \<open>
  Claim C9: on an input that begins with the opening fence and a newline and has no
  further occurrence of the fence, \<^verbatim>\<open>SplitFrontmatter\<close> returns nothing: the read of
  \<^verbatim>\<open>parts[1]\<close> is out of range, for the dash fence and for the plus fence alike.
\<close>

theorem SplitFrontmatter_unclosed_fence_panics:
  assumes "(HasPrefix data (''---'' @ newline) \<and> \<not> Contains (drop 4 data) ''---'')
         \<or> (HasPrefix data (''+++'' @ newline) \<and> \<not> Contains (drop 4 data) ''+++'')"
  shows "SplitFrontmatter data = Inl IndexOutOfRange"
  using assms
proof
  assume a: "HasPrefix data (''---'' @ newline) \<and> \<not> Contains (drop 4 data) ''---''"
  then have "SplitN (drop 4 data) ''---'' 2 = [drop 4 data]"
    by (simp add: SplitN_None Contains_def)
  with a show ?thesis by (simp add: SplitFrontmatter_def at_def)
next
  assume a: "HasPrefix data (''+++'' @ newline) \<and> \<not> Contains (drop 4 data) ''+++''"
  then have s: "SplitN (drop 4 data) ''+++'' 2 = [drop 4 data]"
    by (simp add: SplitN_None Contains_def)
  from a have "\<not> HasPrefix data (''---'' @ newline)"
    by (auto simp: HasPrefix_def prefix_def)
  with a s show ?thesis by (simp add: SplitFrontmatter_def at_def)
qed

theorem SplitFrontmatter_unclosed_fence_panics_witness:
  "HasPrefix (''---'' @ newline @ ''title: x'' @ newline) (''---'' @ newline)
   \<and> \<not> Contains (drop 4 (''---'' @ newline @ ''title: x'' @ newline)) ''---''
   \<and> SplitFrontmatter (''---'' @ newline @ ''title: x'' @ newline) = Inl IndexOutOfRange
   \<and> HasPrefix (''+++'' @ newline @ ''draft = true'') (''+++'' @ newline)
   \<and> \<not> Contains (drop 4 (''+++'' @ newline @ ''draft = true'')) ''+++''
   \<and> SplitFrontmatter (''+++'' @ newline @ ''draft = true'') = Inl IndexOutOfRange"
proof -
  have h: "HasPrefix (''---'' @ newline @ ''title: x'' @ newline) (''---'' @ newline)
   \<and> \<not> Contains (drop 4 (''---'' @ newline @ ''title: x'' @ newline)) ''---''"
    by code_simp
  have g: "HasPrefix (''+++'' @ newline @ ''draft = true'') (''+++'' @ newline)
   \<and> \<not> Contains (drop 4 (''+++'' @ newline @ ''draft = true'')) ''+++''"
    by code_simp
  from SplitFrontmatter_unclosed_fence_panics [of "''---'' @ newline @ ''title: x'' @ newline"]
    SplitFrontmatter_unclosed_fence_panics [of "''+++'' @ newline @ ''draft = true''"] h g
  show ?thesis by blast
qed

section \<open>Properties of the encoder\<close>

subsection \<open>The caller's map\<close>

lemma length_map_store [simp]: "length (map_store h c k v) = length h"
  by (simp add: map_store_def)

lemma length_map_delete [simp]: "length (map_delete h c k) = length h"
  by (simp add: map_delete_def)

lemma map_store_other [simp]: "r \<noteq> c \<Longrightarrow> map_store h c k v ! r = h ! r"
  by (simp add: map_store_def)

lemma map_delete_other [simp]: "r \<noteq> c \<Longrightarrow> map_delete h c k ! r = h ! r"
  by (simp add: map_delete_def)

lemma copy_loop_frame:
  "length (fold (\<lambda>(k, v) h'. map_store h' c k v) es h) = length h
   \<and> (r \<noteq> c \<longrightarrow> fold (\<lambda>(k, v) h'. map_store h' c k v) es h ! r = h ! r)"
  by (induction es arbitrary: h) (auto split: prod.splits)

lemma yamlOrdered_frame:
  "length (snd (yamlOrdered l fs c (b, h))) = length h
   \<and> (r \<noteq> c \<longrightarrow> snd (yamlOrdered l fs c (b, h)) ! r = h ! r)"
  by (induction fs arbitrary: b h) (auto split: option.splits)

lemma MarshalFrontmatter_frame:
  assumes "r < length h"
  shows "snd (MarshalFrontmatter l copyOrder keysOrder delimiter front h) ! r = h ! r"
proof -
  let ?c = "length h"
  let ?h2 = "fold (\<lambda>(k, v) h'. map_store h' ?c k v) (copyOrder ((h @ [[]]) ! front)) (h @ [[]])"
  from assms have ne: "r \<noteq> ?c" by simp
  from assms have h2: "?h2 ! r = h ! r"
    using copy_loop_frame [of ?c _ "h @ [[]]" r] ne by (simp add: nth_append)
  have h3: "snd (yamlOrdered l orderedFields ?c ([], ?h2)) ! r = h ! r"
    using yamlOrdered_frame [of l orderedFields ?c "[]" ?h2 r] ne h2 by simp
  show ?thesis
    using h2 h3
    by (simp add: MarshalFrontmatter_def make_map_def Let_def case_prod_beta)
qed

text \<open>
  Claim C10: for every delimiter and every map, \<^verbatim>\<open>MarshalFrontmatter\<close> leaves the map it
  is given as it was, with the same keys bound to the same values; the YAML branch deletes
  from its own copy. The same holds of every other map that existed before the call.
\<close>

theorem MarshalFrontmatter_leaves_input:
  assumes "front < length h"
  shows "snd (MarshalFrontmatter l copyOrder keysOrder delimiter front h) ! front = h ! front
    \<and> (\<forall>r. r < length h \<longrightarrow>
          snd (MarshalFrontmatter l copyOrder keysOrder delimiter front h) ! r = h ! r)"
  using assms by (simp add: MarshalFrontmatter_frame)

theorem MarshalFrontmatter_leaves_input_witness:
  "(0::nat) < length [[(''tags'', VStrings [''a'', ''b'']), (''title'', VString ''x'')]]
   \<and> (\<forall>l. snd (MarshalFrontmatter l id rev YamlDelimiter 0
               [[(''tags'', VStrings [''a'', ''b'']), (''title'', VString ''x'')]]) ! 0
          = [(''tags'', VStrings [''a'', ''b'']), (''title'', VString ''x'')])"
  using MarshalFrontmatter_leaves_input
    [of 0 "[[(''tags'', VStrings [''a'', ''b'']), (''title'', VString ''x'')]]" _ id rev YamlDelimiter]
  by simp

subsection \<open>What each branch writes\<close>

lemma addYAMLField_builder: "addYAMLField l b f v = b @ addYAMLField l [] f v"
  by (cases v) simp_all

lemma copy_loop_content:
  "c < length h \<Longrightarrow>
   fold (\<lambda>(k, v) h'. map_store h' c k v) es h ! c
     = fold (\<lambda>(k, v). AList.update k v) es (h ! c)"
  by (induction es arbitrary: h) (auto simp: map_store_def split: prod.splits)

lemma fold_update_map_of:
  "distinct (map fst es) \<Longrightarrow>
   map_of (fold (\<lambda>(k, v). AList.update k v) es al) = map_of al ++ map_of es"
proof (induction es arbitrary: al)
  case Nil
  then show ?case by simp
next
  case (Cons e es)
  obtain k v where e: "e = (k, v)" by (cases e)
  from Cons.prems e have k: "k \<notin> dom (map_of es)" and d: "distinct (map fst es)"
    by (auto simp: dom_map_of_conv_image_fst)
  from Cons.IH [OF d, of "AList.update k v al"] e k show ?case
    by (auto simp: update_conv' map_add_def fun_eq_iff domIff split: option.splits)
qed

lemma fold_update_keys:
  assumes "distinct (map fst es)"
  shows "set (map fst (fold (\<lambda>(k, v). AList.update k v) es al))
    = set (map fst al) \<union> set (map fst es)"
proof -
  have "dom (map_of (fold (\<lambda>(k, v). AList.update k v) es al))
      = dom (map_of al) \<union> dom (map_of es)"
    by (simp add: fold_update_map_of [OF assms] Un_commute)
  then show ?thesis by (simp add: dom_map_of_conv_image_fst)
qed

lemma fold_update_distinct:
  "distinct (map fst al) \<Longrightarrow> distinct (map fst (fold (\<lambda>(k, v). AList.update k v) es al))"
  by (induction es arbitrary: al) (auto simp: distinct_update split: prod.splits)

lemma permuted_entries:
  assumes "mset es = mset m" and "distinct (map fst m)"
  shows "distinct (map fst es)" and "map_of es = map_of m"
proof -
  from assms(1) have "mset (map fst es) = mset (map fst m)" by simp
  from mset_eq_imp_distinct_iff [OF this] assms(2) show d: "distinct (map fst es)" by simp
  from assms(1) have "set es = set m" by (rule mset_eq_setD)
  with d assms(2) show "map_of es = map_of m" by (simp add: map_of_inject_set)
qed

lemma sort_mset_cong: "mset xs = mset ys \<Longrightarrow> sort xs = sort (ys :: string list)"
  by (rule properties_for_sort) simp_all

lemma map_of_filter_keys:
  "map_of (filter (\<lambda>(k, v). P k) al) k = (if P k then map_of al k else None)"
  by (induction al) auto

lemma map_fst_filter_keys:
  "map fst (filter (\<lambda>(k, v). P k) al) = filter P (map fst al)"
  by (induction al) auto

lemma yamlOrdered_result:
  assumes "distinct fs" and "c < length h"
  shows "yamlOrdered l fs c (b, h) =
     (b @ concat (map (\<lambda>f. addYAMLField l [] f (map_index (h ! c) f))
                    (filter (\<lambda>f. map_of (h ! c) f \<noteq> None) fs)),
      h[c := filter (\<lambda>(k, v). k \<notin> set fs) (h ! c)])"
  using assms
proof (induction fs arbitrary: b h)
  case Nil
  then show ?case by (simp add: list_update_same_conv)
next
  case (Cons f fs)
  from Cons.prems have d: "distinct fs" and nf: "f \<notin> set fs" by simp_all
  show ?case
  proof (cases "map_of (h ! c) f")
    case None
    then have "filter (\<lambda>(k, v). k \<notin> set (f # fs)) (h ! c) = filter (\<lambda>(k, v). k \<notin> set fs) (h ! c)"
      by (intro filter_cong) (auto simp: map_of_eq_None_iff image_iff)
    with None Cons.IH [OF d Cons.prems(2), of b] show ?thesis by simp
  next
    case (Some v)
    let ?h = "map_delete h c f"
    from Cons.prems(2) have hc: "?h ! c = AList.delete f (h ! c)" and len: "c < length ?h"
      by (simp_all add: map_delete_def)
    have keep: "\<And>g. g \<in> set fs \<Longrightarrow> map_of (?h ! c) g = map_of (h ! c) g"
      using nf by (auto simp: hc delete_conv')
    have filt: "filter (\<lambda>g. map_of (?h ! c) g \<noteq> None) fs = filter (\<lambda>g. map_of (h ! c) g \<noteq> None) fs"
      by (intro filter_cong) (simp_all add: keep)
    have ents: "map (\<lambda>g. addYAMLField l [] g (map_index (?h ! c) g))
                  (filter (\<lambda>g. map_of (h ! c) g \<noteq> None) fs)
              = map (\<lambda>g. addYAMLField l [] g (map_index (h ! c) g))
                  (filter (\<lambda>g. map_of (h ! c) g \<noteq> None) fs)"
      by (intro map_cong) (simp_all add: map_index_def keep)
    have "filter (\<lambda>(k, v). k \<notin> set fs) (AList.delete f (h ! c))
              = filter (\<lambda>(k, v). k \<notin> set (f # fs)) (h ! c)"
      unfolding AList.delete_eq filter_filter by (rule filter_cong) auto
    with Cons.prems(2) have heap: "?h[c := filter (\<lambda>(k, v). k \<notin> set fs) (?h ! c)]
              = h[c := filter (\<lambda>(k, v). k \<notin> set (f # fs)) (h ! c)]"
      by (simp add: map_delete_def)
    have "yamlOrdered l (f # fs) c (b, h) = yamlOrdered l fs c (addYAMLField l b f v, ?h)"
      using Some by simp
    also note Cons.IH [OF d len, of "addYAMLField l b f v"]
    finally have "yamlOrdered l (f # fs) c (b, h) =
      (addYAMLField l b f v
         @ concat (map (\<lambda>g. addYAMLField l [] g (map_index (?h ! c) g))
                    (filter (\<lambda>g. map_of (?h ! c) g \<noteq> None) fs)),
       ?h[c := filter (\<lambda>(k, v). k \<notin> set fs) (?h ! c)])" .
    then have "yamlOrdered l (f # fs) c (b, h) =
      (addYAMLField l b f v
         @ concat (map (\<lambda>g. addYAMLField l [] g (map_index (h ! c) g))
                    (filter (\<lambda>g. map_of (h ! c) g \<noteq> None) fs)),
       h[c := filter (\<lambda>(k, v). k \<notin> set (f # fs)) (h ! c)])"
      by (simp only: filt ents heap)
    moreover have "map_index (h ! c) f = v"
      using Some by (simp add: map_index_def)
    ultimately show ?thesis
      using Some by (simp add: addYAMLField_builder [of l b f v])
  qed
qed

lemma yaml_fold_fields:
  "fold (\<lambda>field b. addYAMLField l b field (g field)) ks b
     = b @ concat (map (\<lambda>f. addYAMLField l [] f (g f)) ks)"
proof (induction ks arbitrary: b)
  case Nil
  then show ?case by simp
next
  case (Cons k ks)
  show ?case
    by (simp add: Cons.IH addYAMLField_builder [of l b k "g k"])
qed

lemma toml_fold_keys:
  "fold (\<lambda>key b. b @ t key) ks b = b @ concat (map t ks)"
  by (induction ks arbitrary: b) simp_all

lemma copy_is_the_map:
  assumes "isPermutation copyOrder" and "front < length h" and "distinct (map fst (h ! front))"
  defines "h2 \<equiv> fold (\<lambda>(k, v) h'. map_store h' (length h) k v)
                   (copyOrder ((h @ [[]]) ! front)) (h @ [[]])"
  shows "length h < length h2"
    and "map_of (h2 ! length h) = map_of (h ! front)"
    and "distinct (map fst (h2 ! length h))"
    and "mset (map fst (h2 ! length h)) = mset (map fst (h ! front))"
proof -
  let ?m = "h ! front"
  let ?es = "copyOrder ?m"
  from assms(2) have m: "(h @ [[]]) ! front = ?m" by (simp add: nth_append)
  from assms(1) have p: "mset ?es = mset ?m" by (simp add: isPermutation_def)
  note pe = permuted_entries [OF p assms(3)]
  have c: "h2 ! length h = fold (\<lambda>(k, v). AList.update k v) ?es []"
    unfolding h2_def m by (subst copy_loop_content) simp_all
  show "length h < length h2"
    unfolding h2_def using copy_loop_frame [of "length h" _ "h @ [[]]"] by simp
  show mo: "map_of (h2 ! length h) = map_of ?m"
    by (simp add: c fold_update_map_of [OF pe(1)] pe(2))
  show d: "distinct (map fst (h2 ! length h))"
    by (simp add: c fold_update_distinct)
  have "dom (map_of (h2 ! length h)) = dom (map_of ?m)"
    using mo by simp
  then have "set (map fst (h2 ! length h)) = set (map fst ?m)"
    by (simp add: dom_map_of_conv_image_fst)
  with set_eq_iff_mset_eq_distinct [OF d assms(3)]
  show "mset (map fst (h2 ! length h)) = mset (map fst ?m)"
    by blast
qed

lemma MarshalFrontmatter_yaml_output:
  assumes "isPermutation copyOrder" and "isPermutation keysOrder"
    and "front < length h" and "distinct (map fst (h ! front))"
  shows "fst (MarshalFrontmatter l copyOrder keysOrder YamlDelimiter front h) =
     Inr (concat (map (\<lambda>k. addYAMLField l [] k (map_index (h ! front) k))
                    (yamlKeyOrder (h ! front))))"
proof -
  let ?m = "h ! front"
  let ?c = "length h"
  let ?h2 = "fold (\<lambda>(k, v) h'. map_store h' ?c k v) (copyOrder ((h @ [[]]) ! front)) (h @ [[]])"
  let ?copy = "?h2 ! ?c"
  let ?rest = "filter (\<lambda>(k, v). k \<notin> set orderedFields) ?copy"
  let ?entry = "\<lambda>al k. addYAMLField l [] k (map_index al k)"
  note cp = copy_is_the_map [OF assms(1,3,4)]
  have od: "distinct orderedFields" by (simp add: orderedFields_def)
  have y: "yamlOrdered l orderedFields ?c ([], ?h2) =
      (concat (map (?entry ?copy) (filter (\<lambda>f. map_of ?copy f \<noteq> None) orderedFields)),
       ?h2[?c := ?rest])"
    using yamlOrdered_result [OF od cp(1), of l "[]"] by simp
  have first: "map (?entry ?copy) (filter (\<lambda>f. map_of ?copy f \<noteq> None) orderedFields)
      = map (?entry ?m) (filter (\<lambda>k. map_of ?m k \<noteq> None) orderedFields)"
    by (simp add: cp(2) map_index_def)
  have h3: "?h2[?c := ?rest] ! ?c = ?rest"
    using cp(1) by simp
  have "mset (map fst (keysOrder ?rest)) = mset (map fst ?rest)"
    using assms(2) by (simp add: isPermutation_def)
  also have "map fst ?rest = filter (\<lambda>k. k \<notin> set orderedFields) (map fst ?copy)"
    by (rule map_fst_filter_keys)
  also have "mset \<dots> = mset (filter (\<lambda>k. k \<notin> set orderedFields) (map fst ?m))"
    using cp(4) by simp
  finally have keys: "sort (map fst (keysOrder ?rest))
      = sort (filter (\<lambda>k. k \<notin> set orderedFields) (map fst ?m))"
    by (rule sort_mset_cong)
  have second: "map (?entry ?rest) (sort (filter (\<lambda>k. k \<notin> set orderedFields) (map fst ?m)))
      = map (?entry ?m) (sort (filter (\<lambda>k. k \<notin> set orderedFields) (map fst ?m)))"
    by (rule map_cong) (auto simp: map_index_def map_of_filter_keys cp(2))
  show ?thesis
    by (simp only: MarshalFrontmatter_def make_map_def Let_def prod.case y h3 keys
        yaml_fold_fields first second yamlKeyOrder_def simp_thms if_True fst_conv
        map_append concat_append)
qed

lemma MarshalFrontmatter_toml_output:
  assumes "isPermutation copyOrder" and "isPermutation keysOrder"
    and "front < length h" and "distinct (map fst (h ! front))"
  shows "fst (MarshalFrontmatter l copyOrder keysOrder TomlDelimiter front h) =
     Inr (concat (map (\<lambda>k. tomlField l k (map_index (h ! front) k))
                    (tomlKeyOrder (h ! front))))"
proof -
  let ?m = "h ! front"
  let ?c = "length h"
  let ?h2 = "fold (\<lambda>(k, v) h'. map_store h' ?c k v) (copyOrder ((h @ [[]]) ! front)) (h @ [[]])"
  let ?copy = "?h2 ! ?c"
  note cp = copy_is_the_map [OF assms(1,3,4)]
  have "mset (map fst (keysOrder ?copy)) = mset (map fst ?copy)"
    using assms(2) by (simp add: isPermutation_def)
  with cp(4) have "mset (map fst (keysOrder ?copy)) = mset (map fst ?m)" by simp
  then have keys: "sort (map fst (keysOrder ?copy)) = sort (map fst ?m)"
    by (rule sort_mset_cong)
  have ne: "TomlDelimiter \<noteq> YamlDelimiter"
    by (simp add: TomlDelimiter_def YamlDelimiter_def)
  show ?thesis
    by (simp add: MarshalFrontmatter_def make_map_def Let_def ne keys toml_fold_keys
        tomlKeyOrder_def map_index_def cp(2))
qed

text \<open>
  The JSON branch returns what \<^verbatim>\<open>json.MarshalIndent\<close> makes of the copy, a map with the
  entries of the given one; any other delimiter is an error.
\<close>

lemma MarshalFrontmatter_json_output:
  assumes "isPermutation copyOrder" and "front < length h" and "distinct (map fst (h ! front))"
  shows "\<exists>frontCopy. map_of frontCopy = map_of (h ! front) \<and> distinct (map fst frontCopy)
           \<and> fst (MarshalFrontmatter l copyOrder keysOrder JsonDelimiter front h)
               = json_MarshalIndent l frontCopy"
proof -
  note cp = copy_is_the_map [OF assms]
  have ne: "JsonDelimiter \<noteq> YamlDelimiter" "JsonDelimiter \<noteq> TomlDelimiter"
    by (simp_all add: JsonDelimiter_def YamlDelimiter_def TomlDelimiter_def)
  have "fst (MarshalFrontmatter l copyOrder keysOrder JsonDelimiter front h)
      = json_MarshalIndent l
          (fold (\<lambda>(k, v) h'. map_store h' (length h) k v)
             (copyOrder ((h @ [[]]) ! front)) (h @ [[]]) ! length h)"
    by (simp add: MarshalFrontmatter_def make_map_def Let_def ne)
  with cp(2,3) show ?thesis by blast
qed

lemma MarshalFrontmatter_unsupported:
  assumes "delimiter \<noteq> YamlDelimiter" and "delimiter \<noteq> TomlDelimiter"
    and "delimiter \<noteq> JsonDelimiter"
  shows "fst (MarshalFrontmatter l copyOrder keysOrder delimiter front h)
           = Inl (UnsupportedFormat delimiter)"
  using assms by (simp add: MarshalFrontmatter_def make_map_def Let_def)

lemma Join_set: "set (Join xs sep) \<subseteq> (\<Union>x\<in>set xs. set x) \<union> set sep"
  by (induction xs sep rule: Join.induct) auto

lemma distinct_yamlKeyOrder: "distinct (map fst m) \<Longrightarrow> distinct (yamlKeyOrder m)"
  by (auto simp: yamlKeyOrder_def orderedFields_def)

lemma distinct_tomlKeyOrder: "distinct (map fst m) \<Longrightarrow> distinct (tomlKeyOrder m)"
  by (simp add: tomlKeyOrder_def)

lemma split_distinct_keys:
  assumes "k \<in> set ks" and "distinct ks"
  shows "\<exists>before after. ks = before @ k # after \<and> k \<notin> set before \<and> k \<notin> set after"
proof -
  from assms(1) obtain xs ys where s: "ks = xs @ k # ys" by (auto dest: split_list)
  with assms(2) have "k \<notin> set xs \<and> k \<notin> set ys" by simp
  with s show ?thesis by blast
qed

lemma yamlKeyOrder_has_key:
  assumes "map_of m k = Some v"
  shows "k \<in> set (yamlKeyOrder m)"
proof -
  from assms have "k \<in> set (map fst m)"
    by (metis map_of_eq_None_iff option.distinct(1) set_map)
  with assms show ?thesis by (auto simp: yamlKeyOrder_def)
qed

lemma tomlKeyOrder_has_key:
  assumes "map_of m k = Some v"
  shows "k \<in> set (tomlKeyOrder m)"
proof -
  from assms have "k \<in> set (map fst m)"
    by (metis map_of_eq_None_iff option.distinct(1) set_map)
  then show ?thesis by (simp add: tomlKeyOrder_def)
qed

lemma addYAMLField_sequence:
  "isSequence v \<Longrightarrow> addYAMLField l [] k v = inlineYAML l k v @ newline"
  by (cases v) (simp_all add: isSequence_def inlineYAML_def)

lemma tomlField_sequence:
  "isSequence v \<Longrightarrow> tomlField l k v = inlineTOML l k v @ newline"
  by (cases v) (simp_all add: isSequence_def inlineTOML_def tomlArrayItems_def)

subsection \<open>The order of the fields\<close>

text \<open>
  Claim C2 says that every format puts \<^verbatim>\<open>title\<close>, \<^verbatim>\<open>date\<close>, \<^verbatim>\<open>draft\<close>, \<^verbatim>\<open>series\<close>,
  \<^verbatim>\<open>categories\<close>, \<^verbatim>\<open>tags\<close> first. The TOML branch has no such list: it sorts all the
  keys, and \<^verbatim>\<open>date\<close> comes before \<^verbatim>\<open>title\<close>, whatever the library parameters are.
\<close>

theorem MarshalFrontmatter_toml_date_before_title:
  "\<forall>l. fst (MarshalFrontmatter l id id TomlDelimiter 0
            [[(''title'', VString ''x''), (''date'', VString ''2023-01-01'')]])
     = Inr (''date = '' @ dquote @ ''2023-01-01'' @ dquote @ newline
            @ ''title = '' @ dquote @ ''x'' @ dquote @ newline)"
proof
  fix l
  have s: "sort [''title'', ''date''] = [''date'', ''title'']" by code_simp
  have q1: "Quote l ''x'' = dquote @ ''x'' @ dquote"
    by (simp add: Quote_def appendEscapedRune_def IsPrint_def byte_def RuneError_def)
  have q2: "Quote l ''2023-01-01'' = dquote @ ''2023-01-01'' @ dquote"
    by (simp add: Quote_def appendEscapedRune_def IsPrint_def byte_def RuneError_def)
  show "fst (MarshalFrontmatter l id id TomlDelimiter 0
            [[(''title'', VString ''x''), (''date'', VString ''2023-01-01'')]])
     = Inr (''date = '' @ dquote @ ''2023-01-01'' @ dquote @ newline
            @ ''title = '' @ dquote @ ''x'' @ dquote @ newline)"
    by (simp add: MarshalFrontmatter_def make_map_def map_store_def map_index_def s q1 q2
        YamlDelimiter_def TomlDelimiter_def)
qed

text \<open>
  Claim C2, amended: whatever the orders in which the two \<^verbatim>\<open>range\<close> loops visit the
  map, the YAML output is the entries of the fields of the priority list that are
  present, in the order of the list, followed by the entries of all other keys in
  increasing byte order; and the TOML output is the entries of all keys in increasing
  byte order.
\<close>

theorem MarshalFrontmatter_field_order:
  assumes "isPermutation copyOrder" and "isPermutation keysOrder"
    and "front < length h" and "distinct (map fst (h ! front))"
  shows "fst (MarshalFrontmatter l copyOrder keysOrder YamlDelimiter front h) =
           Inr (concat (map (\<lambda>k. addYAMLField l [] k (map_index (h ! front) k))
                          (yamlKeyOrder (h ! front))))
       \<and> fst (MarshalFrontmatter l copyOrder keysOrder TomlDelimiter front h) =
           Inr (concat (map (\<lambda>k. tomlField l k (map_index (h ! front) k))
                          (tomlKeyOrder (h ! front))))"
  using MarshalFrontmatter_yaml_output [OF assms] MarshalFrontmatter_toml_output [OF assms]
  by simp

theorem MarshalFrontmatter_field_order_witness:
  "isPermutation rev \<and> isPermutation id
   \<and> (0::nat) < length [[(''tags'', VInt 7), (''zeta'', VInt 3), (''title'', VBool False),
                          (''alpha'', VBool True), (''date'', VInt 2023)]]
   \<and> distinct (map fst ([[(''tags'', VInt 7), (''zeta'', VInt 3), (''title'', VBool False),
                          (''alpha'', VBool True), (''date'', VInt 2023)]] ! 0))
   \<and> (\<forall>l. fst (MarshalFrontmatter l rev id YamlDelimiter 0
               [[(''tags'', VInt 7), (''zeta'', VInt 3), (''title'', VBool False),
                 (''alpha'', VBool True), (''date'', VInt 2023)]])
          = Inr (''title: false'' @ newline @ ''date: 2023'' @ newline @ ''tags: 7'' @ newline
                 @ ''alpha: true'' @ newline @ ''zeta: 3'' @ newline))
   \<and> (\<forall>l. fst (MarshalFrontmatter l rev id TomlDelimiter 0
               [[(''tags'', VInt 7), (''zeta'', VInt 3), (''title'', VBool False),
                 (''alpha'', VBool True), (''date'', VInt 2023)]])
          = Inr (''alpha = true'' @ newline @ ''date = 2023'' @ newline @ ''tags = 7'' @ newline
                 @ ''title = false'' @ newline @ ''zeta = 3'' @ newline))"
proof -
  let ?m = "[(''tags'', VInt 7), (''zeta'', VInt 3), (''title'', VBool False),
             (''alpha'', VBool True), (''date'', VInt 2023)]"
  have p: "isPermutation rev" "isPermutation id"
    by (simp_all add: isPermutation_def)
  have n: "(0::nat) < length [?m]" by simp
  have d: "distinct (map fst ([?m] ! 0))" by simp
  have yk: "yamlKeyOrder ?m = [''title'', ''date'', ''tags'', ''alpha'', ''zeta'']"
    by code_simp
  have tk: "tomlKeyOrder ?m = [''alpha'', ''date'', ''tags'', ''title'', ''zeta'']"
    by code_simp
  have i: "intDigits 7 = ''7''" "intDigits 3 = ''3''" "intDigits 2023 = ''2023''"
    by code_simp+
  from MarshalFrontmatter_field_order [OF p n d]
  have "\<forall>l. fst (MarshalFrontmatter l rev id YamlDelimiter 0 [?m])
          = Inr (''title: false'' @ newline @ ''date: 2023'' @ newline @ ''tags: 7'' @ newline
                 @ ''alpha: true'' @ newline @ ''zeta: 3'' @ newline)
       \<and> fst (MarshalFrontmatter l rev id TomlDelimiter 0 [?m])
          = Inr (''alpha = true'' @ newline @ ''date = 2023'' @ newline @ ''tags = 7'' @ newline
                 @ ''title = false'' @ newline @ ''zeta = 3'' @ newline)"
    by (simp add: yk tk i map_index_def)
  with p n d show ?thesis by simp
qed

subsection \<open>Sequences\<close>

text \<open>
  Claim C3 says that a sequence is always written on a single line. An element that is
  not a string is written with \<^verbatim>\<open>%v\<close>, unquoted: a nested sequence that holds a string
  with a line break is written over two lines, in YAML and in TOML, whatever the library
  parameters are.
\<close>

theorem MarshalFrontmatter_sequence_with_line_break:
  "(\<forall>l. fst (MarshalFrontmatter l id id YamlDelimiter 0
            [[(''tags'', VList [VList [VString (''a'' @ newline @ ''b'')]])]])
     = Inr (''tags: [[a'' @ newline @ ''b]]'' @ newline))
   \<and> (\<forall>l. fst (MarshalFrontmatter l id id TomlDelimiter 0
            [[(''tags'', VList [VList [VString (''a'' @ newline @ ''b'')]])]])
     = Inr (''tags = [[a'' @ newline @ ''b]]'' @ newline))"
  by (simp add: MarshalFrontmatter_def make_map_def map_store_def map_delete_def map_index_def
      YamlDelimiter_def TomlDelimiter_def orderedFields_def)

text \<open>
  So is a string with a line break that \<^verbatim>\<open>needsQuotes\<close> lets through, which it does
  when \<^verbatim>\<open>Sscanf\<close> finds no number in it.
\<close>

lemma MarshalFrontmatter_bare_string_with_line_break:
  assumes "\<not> Sscanf_float l (''a'' @ newline @ ''b'')"
  shows "fst (MarshalFrontmatter l id id YamlDelimiter 0
            [[(''tags'', VList [VString (''a'' @ newline @ ''b'')])]])
     = Inr (''tags: [a'' @ newline @ ''b]'' @ newline)"
proof -
  from assms have "\<not> needsQuotes l (''a'' @ newline @ ''b'')"
    by (simp add: needsQuotes_def HasPrefix_def)
  then show ?thesis
    by (simp add: MarshalFrontmatter_def make_map_def map_store_def map_delete_def map_index_def
      YamlDelimiter_def orderedFields_def)
qed

text \<open>
  Claim C3, amended: in the YAML and in the TOML output, a field whose value is a
  sequence (\<^verbatim>\<open>[]interface{}\<close> or \<^verbatim>\<open>[]string\<close>) is written once, in the inline form: the
  output is the entries of the keys before it, then the key, the opening bracket, the
  elements separated by a comma and a space, the closing bracket and a newline, then the
  entries of the keys after it. That entry is a single line when neither the key nor the
  text of an element holds a line break. The JSON output is what \<^verbatim>\<open>json.MarshalIndent\<close>
  returns, and nothing is said of it.
\<close>

theorem MarshalFrontmatter_sequences_inline:
  assumes "isPermutation copyOrder" and "isPermutation keysOrder"
    and "front < length h" and "distinct (map fst (h ! front))"
    and "map_of (h ! front) k = Some v" and "isSequence v"
  shows "(\<exists>before after.
            yamlKeyOrder (h ! front) = before @ k # after \<and> k \<notin> set before \<and> k \<notin> set after
            \<and> fst (MarshalFrontmatter l copyOrder keysOrder YamlDelimiter front h)
                = Inr (concat (map (\<lambda>f. addYAMLField l [] f (map_index (h ! front) f)) before)
                       @ inlineYAML l k v @ newline
                       @ concat (map (\<lambda>f. addYAMLField l [] f (map_index (h ! front) f)) after)))
       \<and> (\<exists>before after.
            tomlKeyOrder (h ! front) = before @ k # after \<and> k \<notin> set before \<and> k \<notin> set after
            \<and> fst (MarshalFrontmatter l copyOrder keysOrder TomlDelimiter front h)
                = Inr (concat (map (\<lambda>f. tomlField l f (map_index (h ! front) f)) before)
                       @ inlineTOML l k v @ newline
                       @ concat (map (\<lambda>f. tomlField l f (map_index (h ! front) f)) after)))
       \<and> (singleLine k \<and> (\<forall>item \<in> set (formatArrayItems l v). singleLine item)
            \<longrightarrow> singleLine (inlineYAML l k v))
       \<and> (singleLine k \<and> (\<forall>item \<in> set (tomlArrayItems l v). singleLine item)
            \<longrightarrow> singleLine (inlineTOML l k v))"
proof -
  let ?m = "h ! front"
  from assms(5) have mi: "map_index ?m k = v" by (simp add: map_index_def)
  obtain yb ya where yk: "yamlKeyOrder ?m = yb @ k # ya" "k \<notin> set yb" "k \<notin> set ya"
    using split_distinct_keys [OF yamlKeyOrder_has_key [OF assms(5)]
        distinct_yamlKeyOrder [OF assms(4)]] by blast
  have y: "fst (MarshalFrontmatter l copyOrder keysOrder YamlDelimiter front h)
      = Inr (concat (map (\<lambda>f. addYAMLField l [] f (map_index ?m f)) yb)
             @ inlineYAML l k v @ newline
             @ concat (map (\<lambda>f. addYAMLField l [] f (map_index ?m f)) ya))"
    by (simp add: MarshalFrontmatter_yaml_output [OF assms(1-4)] yk(1) mi
        addYAMLField_sequence [OF assms(6)])
  obtain tb ta where tk: "tomlKeyOrder ?m = tb @ k # ta" "k \<notin> set tb" "k \<notin> set ta"
    using split_distinct_keys [OF tomlKeyOrder_has_key [OF assms(5)]
        distinct_tomlKeyOrder [OF assms(4)]] by blast
  have t: "fst (MarshalFrontmatter l copyOrder keysOrder TomlDelimiter front h)
      = Inr (concat (map (\<lambda>f. tomlField l f (map_index ?m f)) tb)
             @ inlineTOML l k v @ newline
             @ concat (map (\<lambda>f. tomlField l f (map_index ?m f)) ta))"
    by (simp add: MarshalFrontmatter_toml_output [OF assms(1-4)] tk(1) mi
        tomlField_sequence [OF assms(6)])
  have sy: "singleLine k \<and> (\<forall>item \<in> set (formatArrayItems l v). singleLine item)
            \<longrightarrow> singleLine (inlineYAML l k v)"
    using Join_set [of "formatArrayItems l v" "'', ''"]
    by (auto simp: singleLine_def inlineYAML_def)
  have st: "singleLine k \<and> (\<forall>item \<in> set (tomlArrayItems l v). singleLine item)
            \<longrightarrow> singleLine (inlineTOML l k v)"
    using Join_set [of "tomlArrayItems l v" "'', ''"]
    by (auto simp: singleLine_def inlineTOML_def)
  from yk y tk t sy st show ?thesis by blast
qed

theorem MarshalFrontmatter_sequences_inline_witness:
  "isPermutation rev \<and> isPermutation id
   \<and> (0::nat) < length [[(''tags'', VList [VInt 1, VBool True]), (''title'', VInt 5)]]
   \<and> distinct (map fst ([[(''tags'', VList [VInt 1, VBool True]), (''title'', VInt 5)]] ! 0))
   \<and> map_of ([[(''tags'', VList [VInt 1, VBool True]), (''title'', VInt 5)]] ! 0) ''tags''
       = Some (VList [VInt 1, VBool True])
   \<and> isSequence (VList [VInt 1, VBool True])
   \<and> singleLine ''tags''
   \<and> (\<forall>l. formatArrayItems l (VList [VInt 1, VBool True]) = [''1'', ''true''])
   \<and> (\<forall>l. tomlArrayItems l (VList [VInt 1, VBool True]) = [''1'', ''true''])
   \<and> singleLine ''1'' \<and> singleLine ''true''
   \<and> (\<forall>l. inlineYAML l ''tags'' (VList [VInt 1, VBool True]) = ''tags: [1, true]'')
   \<and> (\<forall>l. inlineTOML l ''tags'' (VList [VInt 1, VBool True]) = ''tags = [1, true]'')
   \<and> singleLine ''tags: [1, true]'' \<and> singleLine ''tags = [1, true]''
   \<and> (\<forall>l. fst (MarshalFrontmatter l rev id YamlDelimiter 0
               [[(''tags'', VList [VInt 1, VBool True]), (''title'', VInt 5)]])
          = Inr (''title: 5'' @ newline @ ''tags: [1, true]'' @ newline))
   \<and> (\<forall>l. fst (MarshalFrontmatter l rev id TomlDelimiter 0
               [[(''tags'', VList [VInt 1, VBool True]), (''title'', VInt 5)]])
          = Inr (''tags = [1, true]'' @ newline @ ''title = 5'' @ newline))"
proof -
  let ?v = "VList [VInt 1, VBool True]"
  let ?m = "[(''tags'', ?v), (''title'', VInt 5)]"
  have p: "isPermutation rev" "isPermutation id"
    by (simp_all add: isPermutation_def)
  have n: "(0::nat) < length [?m]" by simp
  have d: "distinct (map fst ([?m] ! 0))" by simp
  have g: "map_of ([?m] ! 0) ''tags'' = Some ?v" by simp
  have q: "isSequence ?v" by (simp add: isSequence_def)
  have i: "intDigits 1 = ''1''" "intDigits 5 = ''5''" by code_simp+
  have items: "\<forall>l. formatArrayItems l ?v = [''1'', ''true'']"
    "\<forall>l. tomlArrayItems l ?v = [''1'', ''true'']"
    by (simp_all add: tomlArrayItems_def i)
  have yl: "\<forall>l. inlineYAML l ''tags'' ?v = ''tags: [1, true]''"
    by (simp add: inlineYAML_def i)
  have tl: "\<forall>l. inlineTOML l ''tags'' ?v = ''tags = [1, true]''"
    by (simp add: inlineTOML_def tomlArrayItems_def i)
  have sl: "singleLine ''tags''" "singleLine ''1''" "singleLine ''true''"
    "singleLine ''tags: [1, true]''" "singleLine ''tags = [1, true]''"
    by (simp_all add: singleLine_def)
  have yk: "yamlKeyOrder ?m = [''title'', ''tags'']" by code_simp
  have tk: "tomlKeyOrder ?m = [''tags'', ''title'']" by code_simp
  have out: "\<forall>l. fst (MarshalFrontmatter l rev id YamlDelimiter 0 [?m])
          = Inr (''title: 5'' @ newline @ ''tags: [1, true]'' @ newline)
      \<and> fst (MarshalFrontmatter l rev id TomlDelimiter 0 [?m])
          = Inr (''tags = [1, true]'' @ newline @ ''title = 5'' @ newline)"
  proof
    fix l
    from MarshalFrontmatter_sequences_inline [OF p n d g q, of l]
    obtain yb ya tb ta where
      y: "yamlKeyOrder ([?m] ! 0) = yb @ ''tags'' # ya" "''tags'' \<notin> set yb" "''tags'' \<notin> set ya"
         "fst (MarshalFrontmatter l rev id YamlDelimiter 0 [?m])
            = Inr (concat (map (\<lambda>f. addYAMLField l [] f (map_index ([?m] ! 0) f)) yb)
                   @ inlineYAML l ''tags'' ?v @ newline
                   @ concat (map (\<lambda>f. addYAMLField l [] f (map_index ([?m] ! 0) f)) ya))"
      and t: "tomlKeyOrder ([?m] ! 0) = tb @ ''tags'' # ta" "''tags'' \<notin> set tb" "''tags'' \<notin> set ta"
         "fst (MarshalFrontmatter l rev id TomlDelimiter 0 [?m])
            = Inr (concat (map (\<lambda>f. tomlField l f (map_index ([?m] ! 0) f)) tb)
                   @ inlineTOML l ''tags'' ?v @ newline
                   @ concat (map (\<lambda>f. tomlField l f (map_index ([?m] ! 0) f)) ta))"
      by blast
    from y(1) yk have "yb = [''title''] \<and> ya = []"
      by (cases yb; cases "tl yb") (auto simp: Cons_eq_append_conv)
    moreover from t(1) tk have "tb = [] \<and> ta = [''title'']"
      by (cases tb) (auto simp: Cons_eq_append_conv)
    ultimately show "fst (MarshalFrontmatter l rev id YamlDelimiter 0 [?m])
          = Inr (''title: 5'' @ newline @ ''tags: [1, true]'' @ newline)
      \<and> fst (MarshalFrontmatter l rev id TomlDelimiter 0 [?m])
          = Inr (''tags = [1, true]'' @ newline @ ''title = 5'' @ newline)"
      using y(4) t(4) yl tl by (simp add: map_index_def i)
  qed
  from p n d g q items yl tl sl out show ?thesis by simp
qed

subsection \<open>Decoding what was encoded\<close>

text \<open>
  Whether encoding after decoding is idempotent rests on the parsers, which are
  parameters here. The encoder writes a nil value as \<^verbatim>\<open><nil>\<close> and a string \<^verbatim>\<open><nil>\<close>
  between quotes. So with a YAML parser that reads some input as a field \<^verbatim>\<open>draft\<close>
  without a value and reads \<^verbatim>\<open>draft: <nil>\<close> as a field that holds the string
  \<^verbatim>\<open><nil>\<close>, the second round trip of that input differs from the first.
\<close>

lemma roundTrip_yaml_nil:
  assumes "yaml_Unmarshal l B = Inr [(''draft'', VNil)]"
    and "yaml_Unmarshal l (''draft: <nil>'' @ newline) = Inr [(''draft'', VString ''<nil>'')]"
  shows "roundTrip l id id YamlDelimiter B = Inr (''draft: <nil>'' @ newline)"
    and "roundTrip l id id YamlDelimiter (''draft: <nil>'' @ newline)
           = Inr (''draft: '' @ dquote @ ''<nil>'' @ dquote @ newline)"
proof -
  have q: "needsQuotes l ''<nil>''" by (simp add: needsQuotes_def)
  have qq: "Quote l ''<nil>'' = dquote @ ''<nil>'' @ dquote"
    by (simp add: Quote_def appendEscapedRune_def IsPrint_def byte_def RuneError_def)
  show "roundTrip l id id YamlDelimiter B = Inr (''draft: <nil>'' @ newline)"
    using assms(1)
    by (simp add: roundTrip_def UnmarshalFrontmatter_def MarshalFrontmatter_def make_map_def
        map_store_def map_delete_def map_index_def orderedFields_def)
  show "roundTrip l id id YamlDelimiter (''draft: <nil>'' @ newline)
           = Inr (''draft: '' @ dquote @ ''<nil>'' @ dquote @ newline)"
    using assms(2) q qq
    by (simp add: roundTrip_def UnmarshalFrontmatter_def MarshalFrontmatter_def make_map_def
        map_store_def map_delete_def map_index_def orderedFields_def)
qed

end
